theory Spec2Isabelle
  imports Complex_Main "HOL-Library.Sublist"
begin

section \<open>Common Python values\<close>

text \<open>
  Exceptions of the Python source are values: a function that can raise returns
  \<open>py_error + 'a\<close>, with \<open>Inl\<close> for the exception that leaves the function.
  Python ints are \<open>int\<close>. Scores are Python floats; they are modelled as exact
  rationals, so rounding and NaN are outside the model: two scores that are equal as
  rationals may differ in the last bits as floats, and the sortedness and stability
  statements below are about the scores as the model computes them. A string is the
  list of its characters, and a character is a code point below 256 (ASCII and
  Latin-1), on which \<open>len\<close>, \<open>strip\<close>, \<open>lower\<close>, \<open>isalpha\<close> and \<open>split\<close> act as
  defined below; text with code points from 256 on is outside the model.
\<close>

datatype py_error =
    ZeroDivisionError
  | KeyError
  | IndexError
  | ValueError string
  | RuntimeError

text \<open>
  A \<open>dict\<close> keeps its keys in insertion order, and the code sorts \<open>dict.items()\<close>
  with a stable sort, so a dict is an association list in insertion order.
  \<open>dict_set d k v\<close> is \<open>d[k] = v\<close>: an existing key keeps its position, a new
  key goes to the end. Lookup is \<open>map_of\<close>.
\<close>

fun dict_set :: "('k \<times> 'v) list \<Rightarrow> 'k \<Rightarrow> 'v \<Rightarrow> ('k \<times> 'v) list" where
  "dict_set [] k v = [(k, v)]"
| "dict_set ((k', v') # d) k v =
     (if k' = k then (k', v) # d else (k', v') # dict_set d k v)"

text \<open>
  The slice \<open>xs[:n]\<close> for a Python int \<open>n\<close>: a negative \<open>n\<close> counts from the end.
\<close>

definition slice_to :: "int \<Rightarrow> 'a list \<Rightarrow> 'a list" where
  "slice_to n xs =
     (if n < 0 then take (nat (int (length xs) + n)) xs else take (nat n) xs)"

text \<open>
  \<open>xs[i]\<close> for a Python int \<open>i\<close>: negative indices count from the end, and an index
  out of range raises \<open>IndexError\<close>.
\<close>

definition py_index :: "'a list \<Rightarrow> int \<Rightarrow> py_error + 'a" where
  "py_index xs i =
     (if 0 \<le> i \<and> i < int (length xs) then Inr (xs ! nat i)
      else if i < 0 \<and> 0 \<le> int (length xs) + i then Inr (xs ! nat (int (length xs) + i))
      else Inl IndexError)"

text \<open>
  \<open>sorted(xs, key=key, reverse=True)\<close> and \<open>xs.sort(key=key, reverse=True)\<close>: a
  stable sort by descending key (with \<open>reverse=True\<close> elements with equal keys keep
  their original order). It is the stable insertion sort of the library on the negated
  key.
\<close>

definition sorted_reverse :: "('a \<Rightarrow> rat) \<Rightarrow> 'a list \<Rightarrow> 'a list" where
  "sorted_reverse key xs = sort_key (\<lambda>x. - key x) xs"

subsection \<open>Strings\<close>

text \<open>
  The characters below 256 for which \<open>str.isspace\<close> holds: the ASCII white space,
  the separators \<open>0x1C\<close> to \<open>0x1F\<close>, NEL (\<open>0x85\<close>) and the no-break space
  (\<open>0xA0\<close>).
\<close>

definition is_space :: "char \<Rightarrow> bool" where
  "is_space c \<longleftrightarrow>
     c \<in> set [CHR 0x09, CHR 0x0A, CHR 0x0B, CHR 0x0C, CHR 0x0D,
              CHR 0x1C, CHR 0x1D, CHR 0x1E, CHR 0x1F, CHR '' '',
              CHR 0x85, CHR 0xA0]"

text \<open>
  The characters below 256 for which \<open>str.isalpha\<close> holds, by code point: the ASCII
  letters, the ordinal indicators and the micro sign, and the Latin-1 letters (all of
  \<open>0xC0\<close> to \<open>0xFF\<close> but the signs \<open>0xD7\<close> and \<open>0xF7\<close>).
\<close>

definition is_alpha :: "char \<Rightarrow> bool" where
  "is_alpha c \<longleftrightarrow>
     (let n = (of_char c :: nat)
      in (65 \<le> n \<and> n \<le> 90) \<or> (97 \<le> n \<and> n \<le> 122)
         \<or> n = 170 \<or> n = 181 \<or> n = 186
         \<or> (192 \<le> n \<and> n \<le> 214) \<or> (216 \<le> n \<and> n \<le> 246)
         \<or> (248 \<le> n \<and> n \<le> 255))"

text \<open>
  \<open>str.lower\<close> on one character below 256: the ASCII capitals and the Latin-1
  capitals (\<open>0xC0\<close> to \<open>0xDE\<close> but \<open>0xD7\<close>) move up by 32, every other character
  stays.
\<close>

definition upper_letters :: "char list" where
  "upper_letters = ''ABCDEFGHIJKLMNOPQRSTUVWXYZ'' @
     [CHR 0xC0, CHR 0xC1, CHR 0xC2, CHR 0xC3, CHR 0xC4, CHR 0xC5, CHR 0xC6, CHR 0xC7,
      CHR 0xC8, CHR 0xC9, CHR 0xCA, CHR 0xCB, CHR 0xCC, CHR 0xCD, CHR 0xCE, CHR 0xCF,
      CHR 0xD0, CHR 0xD1, CHR 0xD2, CHR 0xD3, CHR 0xD4, CHR 0xD5, CHR 0xD6, CHR 0xD8,
      CHR 0xD9, CHR 0xDA, CHR 0xDB, CHR 0xDC, CHR 0xDD, CHR 0xDE]"

definition lower_letters :: "char list" where
  "lower_letters = ''abcdefghijklmnopqrstuvwxyz'' @
     [CHR 0xE0, CHR 0xE1, CHR 0xE2, CHR 0xE3, CHR 0xE4, CHR 0xE5, CHR 0xE6, CHR 0xE7,
      CHR 0xE8, CHR 0xE9, CHR 0xEA, CHR 0xEB, CHR 0xEC, CHR 0xED, CHR 0xEE, CHR 0xEF,
      CHR 0xF0, CHR 0xF1, CHR 0xF2, CHR 0xF3, CHR 0xF4, CHR 0xF5, CHR 0xF6, CHR 0xF8,
      CHR 0xF9, CHR 0xFA, CHR 0xFB, CHR 0xFC, CHR 0xFD, CHR 0xFE]"

definition char_lower :: "char \<Rightarrow> char" where
  "char_lower c =
     (case map_of (zip upper_letters lower_letters) c of
        None \<Rightarrow> c
      | Some l \<Rightarrow> l)"

definition str_lower :: "string \<Rightarrow> string" where
  "str_lower s = map char_lower s"

definition str_strip :: "string \<Rightarrow> string" where
  "str_strip s = rev (dropWhile is_space (rev (dropWhile is_space s)))"

text \<open>\<open>s.split(sep)\<close> for a one-character separator: never empty, \<open>"".split(sep) = [""]\<close>.\<close>

fun split_on :: "char \<Rightarrow> string \<Rightarrow> string list" where
  "split_on sep [] = [[]]"
| "split_on sep (c # cs) =
     (if c = sep then [] # split_on sep cs
      else (case split_on sep cs of
              [] \<Rightarrow> [[c]]
            | w # ws \<Rightarrow> (c # w) # ws))"

text \<open>
  \<open>s.split()\<close>: the maximal runs of non-whitespace characters. The first argument
  holds the current run, reversed.
\<close>

fun split_ws_from :: "string \<Rightarrow> string \<Rightarrow> string list" where
  "split_ws_from w [] = (if w = [] then [] else [rev w])"
| "split_ws_from w (c # cs) =
     (if is_space c
      then (if w = [] then split_ws_from [] cs else rev w # split_ws_from [] cs)
      else split_ws_from (c # w) cs)"

definition split_ws :: "string \<Rightarrow> string list" where
  "split_ws s = split_ws_from [] s"

text \<open>The test \<open>sub in s\<close> on strings.\<close>

fun is_substring :: "string \<Rightarrow> string \<Rightarrow> bool" where
  "is_substring sub [] \<longleftrightarrow> sub = []"
| "is_substring sub (c # cs) \<longleftrightarrow> prefix sub (c # cs) \<or> is_substring sub cs"

subsection \<open>Documents and the text generation service\<close>

text \<open>
  A langchain \<open>Document\<close>; a retrieved candidate is a pair \<open>(Document, score)\<close>, as
  \<open>similarity_search_with_score\<close> returns it.
\<close>

record document =
  page_content :: string
  metadata :: "(string \<times> string) list"

text \<open>
  Every prompt sent to the generation service is a fixed template filled with the
  arguments below, so a prompt is identified by its template and arguments. A call of
  \<open>ainvoke_smart\<close>, \<open>smart_invoke\<close> or \<open>llm.invoke\<close> either returns the text of the
  response or raises: its outcome is a value of \<open>py_error + string\<close>, and the service
  is a function from the prompt to the outcome. The theorems quantify over all such
  functions, that is over every behaviour of the service.
\<close>

datatype prompt =
    ParaphrasePrompt int string
  | HypothesisPrompt string
  | EntityPrompt string
  | ClassificationPrompt string
  | AnswerPrompt string string

type_synonym generation = "prompt \<Rightarrow> py_error + string"

section \<open>Rank fusion (techniques/fusion.py)\<close>

text \<open>
  The three dictionaries that \<open>_reciprocal_rank_fusion\<close> fills: \<open>rrf_scores\<close> is a
  \<open>defaultdict(float)\<close>, \<open>doc_map\<close> a plain dict and \<open>original_scores\<close> a
  \<open>defaultdict(list)\<close>; all three are keyed by \<open>doc.page_content\<close>.
\<close>

record fusion_state =
  rrf_scores :: "(string \<times> rat) list"
  doc_map :: "(string \<times> document) list"
  original_scores :: "(string \<times> rat list) list"

text \<open>
  The body of the inner loop, for one candidate \<open>(doc, score)\<close> at \<open>rank\<close>:
  \<open>rrf_scores[content] += 1.0 / (k + rank)\<close>, \<open>doc_map[content] = doc\<close> and
  \<open>original_scores[content].append(score)\<close>. The ranks that \<open>enumerate\<close> produces
  are positive, so a rank is a \<open>nat\<close>; \<open>k\<close> is any Python int.
\<close>

definition fuse_step :: "int \<Rightarrow> nat \<Rightarrow> document \<Rightarrow> rat \<Rightarrow> fusion_state \<Rightarrow> fusion_state" where
  "fuse_step k rank doc score st =
     (let content = page_content doc in
      \<lparr>rrf_scores = dict_set (rrf_scores st) content
         ((case map_of (rrf_scores st) content of None \<Rightarrow> 0 | Some s \<Rightarrow> s)
            + 1 / of_int (k + int rank)),
       doc_map = dict_set (doc_map st) content doc,
       original_scores = dict_set (original_scores st) content
         ((case map_of (original_scores st) content of None \<Rightarrow> [] | Some l \<Rightarrow> l)
            @ [score])\<rparr>)"

text \<open>
  The inner loop \<open>for rank, (doc, score) in enumerate(result_list, start=1)\<close>, over
  the enumerated list; the division \<open>1.0 / (k + rank)\<close> raises \<open>ZeroDivisionError\<close>
  when \<open>k + rank = 0\<close>.
\<close>

fun fuse_ranked ::
  "int \<Rightarrow> (nat \<times> document \<times> rat) list \<Rightarrow> fusion_state \<Rightarrow> py_error + fusion_state" where
  "fuse_ranked k [] st = Inr st"
| "fuse_ranked k ((rank, doc, score) # rest) st =
     (if k + int rank = 0 then Inl ZeroDivisionError
      else fuse_ranked k rest (fuse_step k rank doc score st))"

text \<open>The outer loop \<open>for result_list in all_results\<close>.\<close>

fun fuse_lists ::
  "int \<Rightarrow> (document \<times> rat) list list \<Rightarrow> fusion_state \<Rightarrow> py_error + fusion_state" where
  "fuse_lists k [] st = Inr st"
| "fuse_lists k (result_list # rest) st =
     (case fuse_ranked k (enumerate 1 result_list) st of
        Inl e \<Rightarrow> Inl e
      | Inr st' \<Rightarrow> fuse_lists k rest st')"

text \<open>
  The comprehension that builds \<open>result\<close>: \<open>doc_map[content]\<close> raises \<open>KeyError\<close> on
  a missing key, \<open>original_scores[content]\<close> gives \<open>[]\<close> on one.
\<close>

fun build_result ::
  "fusion_state \<Rightarrow> (string \<times> rat) list \<Rightarrow> py_error + (document \<times> rat \<times> rat list) list" where
  "build_result st [] = Inr []"
| "build_result st ((content, rrf_score) # rest) =
     (case map_of (doc_map st) content of
        None \<Rightarrow> Inl KeyError
      | Some doc \<Rightarrow>
          (case build_result st rest of
             Inl e \<Rightarrow> Inl e
           | Inr result \<Rightarrow>
               Inr ((doc, rrf_score,
                     (case map_of (original_scores st) content of None \<Rightarrow> [] | Some l \<Rightarrow> l))
                    # result)))"

text \<open>\<open>_reciprocal_rank_fusion(all_results, k, top_k)\<close>; the defaults are \<open>k = 60\<close>, \<open>top_k = 5\<close>.\<close>

definition reciprocal_rank_fusion ::
  "(document \<times> rat) list list \<Rightarrow> int \<Rightarrow> int \<Rightarrow> py_error + (document \<times> rat \<times> rat list) list" where
  "reciprocal_rank_fusion all_results k top_k =
     (case fuse_lists k all_results \<lparr>rrf_scores = [], doc_map = [], original_scores = []\<rparr> of
        Inl e \<Rightarrow> Inl e
      | Inr st \<Rightarrow> build_result st (slice_to top_k (sorted_reverse snd (rrf_scores st))))"

text \<open>
  All ranked occurrences in the order in which the two loops visit them, and the
  state after the loop bodies have run on a list of them.
\<close>

definition ranked :: "(document \<times> rat) list list \<Rightarrow> (nat \<times> document \<times> rat) list" where
  "ranked all_results = concat (map (enumerate 1) all_results)"

definition fuse_fold :: "int \<Rightarrow> (nat \<times> document \<times> rat) list \<Rightarrow> fusion_state \<Rightarrow> fusion_state" where
  "fuse_fold k items st = fold (\<lambda>(rank, doc, score). fuse_step k rank doc score) items st"

definition default_rrf_k :: int where
  "default_rrf_k = 60"

definition default_top_k :: int where
  "default_top_k = 5"

text \<open>
  The specification's fused score of a content: the sum of \<open>1 / (k + r)\<close> over every
  occurrence of the content at rank \<open>r\<close> (counted from 1) in any input list.
\<close>

definition rrf_sum :: "int \<Rightarrow> (document \<times> rat) list list \<Rightarrow> string \<Rightarrow> rat" where
  "rrf_sum k all_results c =
     (\<Sum>result_list\<leftarrow>all_results.
        \<Sum>(r, (doc, score))\<leftarrow>enumerate 1 result_list.
          if page_content doc = c then 1 / of_int (k + int r) else 0)"

text \<open>
  The order in which the values of a list are first seen: each value once, at the
  place of its first occurrence.
\<close>

primrec first_seen :: "'a list \<Rightarrow> 'a list" where
  "first_seen [] = []"
| "first_seen (x # xs) = x # filter (\<lambda>y. y \<noteq> x) (first_seen xs)"

text \<open>The occurrences of a content among the retrieved candidates, in encounter order.\<close>

definition occurrences :: "string \<Rightarrow> (document \<times> rat) list \<Rightarrow> (document \<times> rat) list" where
  "occurrences c docs = filter (\<lambda>(doc, score). page_content doc = c) docs"

text \<open>The contents of a list of candidates, in order.\<close>

definition contents_of :: "(document \<times> rat) list \<Rightarrow> string list" where
  "contents_of docs = map (\<lambda>(doc, score). page_content doc) docs"

text \<open>The documents of the worked example of the specification.\<close>

definition doc_A :: document where
  "doc_A = \<lparr>page_content = ''A'', metadata = []\<rparr>"

definition doc_B :: document where
  "doc_B = \<lparr>page_content = ''B'', metadata = []\<rparr>"

definition doc_C :: document where
  "doc_C = \<lparr>page_content = ''C'', metadata = []\<rparr>"

text \<open>Two documents with the same content and different metadata.\<close>

definition doc_A_one :: document where
  "doc_A_one = \<lparr>page_content = ''A'', metadata = [(''source'', ''one.pdf'')]\<rparr>"

definition doc_A_two :: document where
  "doc_A_two = \<lparr>page_content = ''A'', metadata = [(''source'', ''two.pdf'')]\<rparr>"

section \<open>Deduplication and top-k selection (techniques/subquery.py)\<close>

text \<open>
  The loop of \<open>_deduplicate_docs\<close> over \<open>seen_content\<close>, a dict from content to the
  pair \<open>(doc, score)\<close> kept for it.
\<close>

fun dedup_loop ::
  "(document \<times> rat) list \<Rightarrow> (string \<times> (document \<times> rat)) list
     \<Rightarrow> (string \<times> (document \<times> rat)) list" where
  "dedup_loop [] seen_content = seen_content"
| "dedup_loop ((doc, score) # rest) seen_content =
     (let content = page_content doc in
      dedup_loop rest
        (case map_of seen_content content of
           None \<Rightarrow> dict_set seen_content content (doc, score)
         | Some kept \<Rightarrow>
             if score > snd kept then dict_set seen_content content (doc, score)
             else seen_content))"

definition deduplicate_docs :: "(document \<times> rat) list \<Rightarrow> (document \<times> rat) list" where
  "deduplicate_docs docs = sorted_reverse snd (map snd (dedup_loop docs []))"

text \<open>
  The two steps of \<open>subquery_rag\<close> on the retrieved candidates: deduplicate, then
  \<open>sorted(unique_docs, key=lambda x: x[1], reverse=True)[:top_k]\<close>.
\<close>

definition dedup_and_select :: "(document \<times> rat) list \<Rightarrow> int \<Rightarrow> (document \<times> rat) list" where
  "dedup_and_select all_docs top_k =
     (let unique_docs = deduplicate_docs all_docs
      in slice_to top_k (sorted_reverse snd unique_docs))"

text \<open>The candidates of the worked example of the specification.\<close>

definition doc_D1 :: document where
  "doc_D1 = \<lparr>page_content = ''D1'', metadata = []\<rparr>"

definition doc_D2 :: document where
  "doc_D2 = \<lparr>page_content = ''D2'', metadata = []\<rparr>"

section \<open>Entity graph expansion (techniques/graph\_rag.py)\<close>

text \<open>
  The graph is the dictionary \<open>{"nodes": set, "edges": list of pairs}\<close> that
  \<open>_build_entity_graph\<close> returns; it is a record with these two fields.
\<close>

record entity_graph =
  nodes :: "string set"
  edges :: "(string \<times> string) list"

text \<open>
  The inner loop of \<open>_expand_entities\<close>: one scan over \<open>graph["edges"]\<close> that adds to
  \<open>next_level\<close> the other end of every edge with an end in \<open>current_level\<close>.
\<close>

fun scan_edges :: "(string \<times> string) list \<Rightarrow> string set \<Rightarrow> string set \<Rightarrow> string set" where
  "scan_edges [] current_level next_level = next_level"
| "scan_edges ((e1, e2) # rest) current_level next_level =
     (let next1 = (if e1 \<in> current_level then insert e2 next_level else next_level);
          next2 = (if e2 \<in> current_level then insert e1 next1 else next1)
      in scan_edges rest current_level next2)"

text \<open>
  The outer loop \<open>for _ in range(hops)\<close>, as recursion on the number of rounds left;
  the state is the pair \<open>(expanded, current_level)\<close>.
\<close>

fun expand_rounds ::
  "nat \<Rightarrow> (string \<times> string) list \<Rightarrow> string set \<Rightarrow> string set \<Rightarrow> string set" where
  "expand_rounds 0 es expanded current_level = expanded"
| "expand_rounds (Suc n) es expanded current_level =
     (let next_level = scan_edges es current_level {}
      in expand_rounds n es (expanded \<union> next_level) next_level)"

text \<open>
  \<open>_expand_entities(seed_entities, graph, hops)\<close>. \<open>hops\<close> is a Python int;
  \<open>range(hops)\<close> is empty for a negative one, which is \<open>nat hops = 0\<close> rounds.
\<close>

definition expand_entities :: "string list \<Rightarrow> entity_graph \<Rightarrow> int \<Rightarrow> string set" where
  "expand_entities seed_entities graph hops =
     expand_rounds (nat hops) (edges graph) (set seed_entities) (set seed_entities)"

text \<open>
  The specification's reading of the expansion: edges are unordered pairs, one hop
  moves along one edge in either direction, and an entity is reachable within \<open>H\<close>
  hops when some walk of at most \<open>H\<close> edges leads to it from a seed.
\<close>

definition hop :: "(string \<times> string) list \<Rightarrow> (string \<times> string) set" where
  "hop es = set es \<union> (set es)\<inverse>"

definition reachable_within :: "(string \<times> string) list \<Rightarrow> string set \<Rightarrow> nat \<Rightarrow> string set" where
  "reachable_within es seed H = {v. \<exists>j u. j \<le> H \<and> u \<in> seed \<and> (u, v) \<in> hop es ^^ j}"

text \<open>The graph of the worked example of the specification.\<close>

definition example_graph :: entity_graph where
  "example_graph =
     \<lparr>nodes = {''Python'', ''Guido'', ''1991''},
      edges = [(''Python'', ''Guido''), (''Guido'', ''1991'')]\<rparr>"

section \<open>Entity graph building and filtering (techniques/graph\_rag.py)\<close>

text \<open>
  \<open>_extract_entities(text)\<close>: one generation call, whose exception is not caught.
  \<open>parse_entities\<close> is the comprehension on the response and the slice
  \<open>entities[:10]\<close>: the response is split into lines, and the stripped lines longer
  than two characters are the entities, at most ten of them.
\<close>

definition parse_entities :: "string \<Rightarrow> string list" where
  "parse_entities response =
     (let entities =
            map str_strip
              (filter (\<lambda>line. str_strip line \<noteq> [] \<and> length (str_strip line) > 2)
                 (split_on CHR 0x0A (str_strip response)))
      in slice_to 10 entities)"

definition extract_entities :: "generation \<Rightarrow> string \<Rightarrow> py_error + string list" where
  "extract_entities ainvoke_smart text =
     (case ainvoke_smart (EntityPrompt text) of
        Inl e \<Rightarrow> Inl e
      | Inr response \<Rightarrow> Inr (parse_entities response))"

text \<open>
  The nested loop \<open>for i, e1 in enumerate(entities): for e2 in entities[i+1:]\<close> that
  appends \<open>(e1, e2)\<close> to \<open>relationships\<close>.
\<close>

fun entity_pairs :: "string list \<Rightarrow> (string \<times> string) list" where
  "entity_pairs [] = []"
| "entity_pairs (e1 # rest) = map (Pair e1) rest @ entity_pairs rest"

text \<open>
  The loop of \<open>_build_entity_graph\<close> over \<open>docs[:5]\<close>. The builder issues one
  generation call per document; \<open>calls i\<close> is the behaviour of the service at the
  \<open>i\<close>-th call of the build (counted from 0), so that two calls with the same prompt
  may differ.
\<close>

fun build_loop ::
  "(nat \<Rightarrow> generation) \<Rightarrow> nat \<Rightarrow> (document \<times> rat) list \<Rightarrow> entity_graph
     \<Rightarrow> py_error + entity_graph" where
  "build_loop calls i [] graph = Inr graph"
| "build_loop calls i ((doc, score) # rest) graph =
     (case extract_entities (calls i) (page_content doc) of
        Inl e \<Rightarrow> Inl e
      | Inr entities \<Rightarrow>
          build_loop calls (Suc i) rest
            \<lparr>nodes = nodes graph \<union> set entities,
             edges = edges graph @ entity_pairs entities\<rparr>)"

definition build_entity_graph ::
  "(nat \<Rightarrow> generation) \<Rightarrow> (document \<times> rat) list \<Rightarrow> py_error + entity_graph" where
  "build_entity_graph calls docs =
     build_loop calls 0 (slice_to 5 docs) \<lparr>nodes = {}, edges = []\<rparr>"

text \<open>
  \<open>_filter_docs_by_entities(docs, entities, top_k)\<close>: \<open>entities\<close> is a Python set,
  \<open>entity_matches\<close> counts its members whose lower-case form occurs in the lower-case
  content, and \<open>0.1\<close> is the rational \<open>1/10\<close>.
\<close>

definition combined_score :: "string set \<Rightarrow> document \<times> rat \<Rightarrow> document \<times> rat" where
  "combined_score entities = (\<lambda>(doc, original_score).
     (let content_lower = str_lower (page_content doc);
          entity_matches =
            card {entity \<in> entities. is_substring (str_lower entity) content_lower}
      in (doc, original_score * (1 + of_nat entity_matches * (1 / 10)))))"

definition filter_docs_by_entities ::
  "(document \<times> rat) list \<Rightarrow> string set \<Rightarrow> int \<Rightarrow> (document \<times> rat) list" where
  "filter_docs_by_entities docs entities top_k =
     (let scored_docs = map (combined_score entities) docs
      in slice_to top_k (sorted_reverse snd scored_docs))"

text \<open>A document that mentions two entities, for the worked examples.\<close>

definition doc_python :: document where
  "doc_python = \<lparr>page_content = ''Python by Guido'', metadata = []\<rparr>"

section \<open>Query expansion (techniques/fusion.py, techniques/hyde\_rag.py)\<close>

text \<open>
  \<open>_generate_query_variations(query, num_variations)\<close>: the call of
  \<open>ainvoke_smart\<close> is not inside a \<open>try\<close>, so its exception leaves the function.
\<close>

definition generate_query_variations ::
  "generation \<Rightarrow> string \<Rightarrow> int \<Rightarrow> py_error + string list" where
  "generate_query_variations ainvoke_smart query num_variations =
     (case ainvoke_smart (ParaphrasePrompt (num_variations - 1) query) of
        Inl e \<Rightarrow> Inl e
      | Inr response \<Rightarrow>
          (let variations =
                 map str_strip
                   (filter (\<lambda>line. str_strip line \<noteq> [])
                      (split_on CHR 0x0A (str_strip response)));
               all_queries = [query] @ slice_to (num_variations - 1) variations
           in Inr all_queries))"

text \<open>\<open>_generate_hypothesis(query)\<close>, with its fallback for a short hypothesis.\<close>

definition generate_hypothesis :: "generation \<Rightarrow> string \<Rightarrow> py_error + string" where
  "generate_hypothesis ainvoke_smart query =
     (case ainvoke_smart (HypothesisPrompt query) of
        Inl e \<Rightarrow> Inl e
      | Inr response \<Rightarrow>
          (let hypothesis = str_strip response
           in if length hypothesis < 20 then Inr query else Inr hypothesis))"

text \<open>
  Behaviours of the generation service for the worked examples: a call that raises,
  and a build in which the call for the second document raises.
\<close>

definition failing_generation :: generation where
  "failing_generation = (\<lambda>p. Inl RuntimeError)"

definition entity_response :: string where
  "entity_response = ''Python\<newline>Guido van Rossum''"

definition second_call_fails :: "nat \<Rightarrow> generation" where
  "second_call_fails = (\<lambda>i p. if i = 1 then Inl RuntimeError else Inr entity_response)"

definition all_calls_return :: "nat \<Rightarrow> generation" where
  "all_calls_return = (\<lambda>i p. Inr entity_response)"

section \<open>Two-stage reranking (techniques/reranking\_rag.py)\<close>

text \<open>
  The external services that \<open>reranking_rag\<close> calls, in the order of the source: the
  embedding of the query, the stage-1 search of the vector store, the stage-2 rerank
  of the Cohere client, and the generation of the answer. Each call returns or raises.
  A rerank result is the pair \<open>(index, relevance_score)\<close>.
\<close>

record services =
  embed_query :: "string \<Rightarrow> py_error + nat"
  similarity_search_with_score :: "string \<Rightarrow> int \<Rightarrow> py_error + (document \<times> rat) list"
  rerank :: "string \<Rightarrow> string list \<Rightarrow> int \<Rightarrow> py_error + (int \<times> rat) list"
  smart_invoke :: "generation"

text \<open>The calls made to the services are recorded in a trace, oldest first.\<close>

datatype service_call =
    EmbedQuery string
  | Stage1Search string int
  | Stage2Rerank string "string list" int
  | Generate prompt

record reranked_source =
  content :: string
  source_metadata :: "(string \<times> string) list"
  original_score :: rat
  rerank_score :: rat
  rerank_index :: int

record rag_result =
  answer :: string
  sources :: "reranked_source list"

text \<open>
  The loop over \<open>rerank_response.results\<close>; \<open>initial_docs[result.index]\<close> raises
  \<open>IndexError\<close> for an index out of range.
\<close>

fun extract_reranked ::
  "(document \<times> rat) list \<Rightarrow> (int \<times> rat) list \<Rightarrow> py_error + reranked_source list" where
  "extract_reranked initial_docs [] = Inr []"
| "extract_reranked initial_docs ((index, relevance_score) # rest) =
     (case py_index initial_docs index of
        Inl e \<Rightarrow> Inl e
      | Inr (original_doc, score) \<Rightarrow>
          (case extract_reranked initial_docs rest of
             Inl e \<Rightarrow> Inl e
           | Inr reranked_sources \<Rightarrow>
               Inr (\<lparr>content = page_content original_doc,
                     source_metadata = metadata original_doc,
                     original_score = score,
                     rerank_score = relevance_score,
                     rerank_index = index\<rparr> # reranked_sources)))"

text \<open>The context is the contents joined by a blank line.\<close>

fun join_context :: "string list \<Rightarrow> string" where
  "join_context [] = []"
| "join_context [part] = part"
| "join_context (part # rest) = part @ [CHR 0x0A, CHR 0x0A] @ join_context rest"

text \<open>
  \<open>reranking_rag(query, top_k, ..., cohere_api_key, initial_top_k, final_top_n)\<close>,
  up to the answer and its sources; timings, token counts and the quality evaluation,
  whose failure the code catches, do not change what is returned here and are left
  out. The result is paired with the trace of the calls made. An absent credential is
  \<open>None\<close>; \<open>not cohere_api_key\<close> also holds for the empty string.
\<close>

definition reranking_rag ::
  "services \<Rightarrow> string \<Rightarrow> int \<Rightarrow> string option \<Rightarrow> int option \<Rightarrow> int option
     \<Rightarrow> (py_error + rag_result) \<times> service_call list" where
  "reranking_rag svc query top_k cohere_api_key initial_top_k final_top_n =
     (if cohere_api_key = None \<or> cohere_api_key = Some []
      then (Inl (ValueError ''cohere_api_key is required for reranking''), [])
      else
        (let initial_k = (case initial_top_k of None \<Rightarrow> top_k * 4 | Some n \<Rightarrow> n);
             final_n = (case final_top_n of None \<Rightarrow> top_k | Some n \<Rightarrow> n);
             trace1 = [EmbedQuery query]
         in (case embed_query svc query of
               Inl e \<Rightarrow> (Inl e, trace1)
             | Inr query_vector \<Rightarrow>
        (let trace2 = trace1 @ [Stage1Search query initial_k]
         in (case similarity_search_with_score svc query initial_k of
               Inl e \<Rightarrow> (Inl e, trace2)
             | Inr initial_docs \<Rightarrow>
        (let documents_to_rerank = map (\<lambda>(doc, score). page_content doc) initial_docs;
             trace3 = trace2 @ [Stage2Rerank query documents_to_rerank final_n]
         in (case rerank svc query documents_to_rerank final_n of
               Inl e \<Rightarrow> (Inl e, trace3)
             | Inr results \<Rightarrow>
            (case extract_reranked initial_docs results of
               Inl e \<Rightarrow> (Inl e, trace3)
             | Inr reranked_sources \<Rightarrow>
        (let context = join_context (map content reranked_sources);
             trace4 = trace3 @ [Generate (AnswerPrompt context query)]
         in (case smart_invoke svc (AnswerPrompt context query) of
               Inl e \<Rightarrow> (Inl e, trace4)
             | Inr text \<Rightarrow>
                 (Inr \<lparr>answer = text, sources = reranked_sources\<rparr>, trace4)))))))))))"

text \<open>Services that always answer, for the worked examples.\<close>

definition example_services :: services where
  "example_services =
     \<lparr>embed_query = (\<lambda>q. Inr 768),
      similarity_search_with_score = (\<lambda>q k. Inr [(doc_A, 9 / 10), (doc_B, 4 / 5)]),
      rerank = (\<lambda>q ds n. Inr [(1, 19 / 20), (0, 1 / 5)]),
      smart_invoke = (\<lambda>p. Inr ''answer'')\<rparr>"

section \<open>Adaptive router (techniques/adaptive)\<close>

definition CATEGORY_TO_TECHNIQUE :: "(string \<times> string) list" where
  "CATEGORY_TO_TECHNIQUE =
     [(''simple'', ''baseline''),
      (''complex'', ''subquery''),
      (''abstract'', ''hyde''),
      (''precision'', ''reranking'')]"

definition DEFAULT_TECHNIQUE :: string where
  "DEFAULT_TECHNIQUE = ''baseline''"

definition VALID_CATEGORIES :: "string list" where
  "VALID_CATEGORIES = [''simple'', ''complex'', ''abstract'', ''precision'']"

text \<open>
  The fields of \<open>AdaptiveState\<close> that the classify and select nodes read or write;
  the other fields (answer, sources, metrics, execution details) are the extension of
  the record, which these nodes leave as it is.
\<close>

record adaptive_state =
  query :: string
  query_type :: string
  technique :: string
  confidence :: rat

text \<open>
  The clean-up of the response in \<open>classify_query_node\<close>: strip and lower-case, keep
  the first whitespace-separated word (\<open>"simple"\<close> for an empty response), and keep
  its alphabetic characters. \<open>split()[0]\<close> raises \<open>IndexError\<close> on an empty list.
\<close>

definition normalize_classification :: "string \<Rightarrow> py_error + string" where
  "normalize_classification response_content =
     (let classification = str_lower (str_strip response_content)
      in case (if classification \<noteq> []
               then (case split_ws classification of
                       [] \<Rightarrow> Inl IndexError
                     | word # ws \<Rightarrow> Inr word)
               else Inr ''simple'') of
           Inl e \<Rightarrow> Inl e
         | Inr classification \<Rightarrow> Inr (filter is_alpha classification))"

text \<open>
  The loop \<open>for cat in VALID_CATEGORIES\<close> with its \<open>else\<close> branch: the first
  category that occurs in the classification, \<open>"simple"\<close> when none does.
\<close>

fun find_category :: "string list \<Rightarrow> string \<Rightarrow> string" where
  "find_category [] classification = ''simple''"
| "find_category (cat # cats) classification =
     (if is_substring cat classification then cat
      else find_category cats classification)"

definition validate_classification :: "string \<Rightarrow> string" where
  "validate_classification classification =
     (if classification \<notin> set VALID_CATEGORIES
      then find_category VALID_CATEGORIES classification
      else classification)"

text \<open>
  \<open>classify_query_node(state)\<close>. \<open>get_llm\<close> runs before the \<open>try\<close> and can raise
  (no API key is available), so its outcome is a parameter: an exception, or the client
  whose \<open>invoke\<close> is the classification call. Every exception raised inside the
  \<open>try\<close> is caught.
\<close>

definition classify_query_node ::
  "py_error + generation \<Rightarrow> 'a adaptive_state_scheme \<Rightarrow> py_error + 'a adaptive_state_scheme" where
  "classify_query_node get_llm state =
     (case get_llm of
        Inl e \<Rightarrow> Inl e
      | Inr llm_invoke \<Rightarrow>
          (case (case llm_invoke (ClassificationPrompt (query state)) of
                   Inl e \<Rightarrow> Inl e
                 | Inr response_content \<Rightarrow>
                     (case normalize_classification response_content of
                        Inl e \<Rightarrow> Inl e
                      | Inr classification \<Rightarrow> Inr (validate_classification classification))) of
             Inr classification \<Rightarrow>
               Inr (state\<lparr>query_type := classification, confidence := 9 / 10\<rparr>)
           | Inl e \<Rightarrow>
               Inr (state\<lparr>query_type := ''simple'', confidence := 1 / 2\<rparr>)))"

text \<open>\<open>select_technique_node(state)\<close>: \<open>CATEGORY_TO_TECHNIQUE.get(query_type, DEFAULT_TECHNIQUE)\<close>.\<close>

definition select_technique_node :: "'a adaptive_state_scheme \<Rightarrow> 'a adaptive_state_scheme" where
  "select_technique_node state =
     state\<lparr>technique :=
       (case map_of CATEGORY_TO_TECHNIQUE (query_type state) of
          None \<Rightarrow> DEFAULT_TECHNIQUE
        | Some t \<Rightarrow> t)\<rparr>"

text \<open>
  The specification's wording of the normalization, for comparison with the clean-up of
  the code: trim, lower-case, strip punctuation. Punctuation is the ASCII punctuation of
  \<open>string.punctuation\<close>, by code point.
\<close>

definition is_punctuation :: "char \<Rightarrow> bool" where
  "is_punctuation c \<longleftrightarrow>
     (let n = (of_char c :: nat)
      in (33 \<le> n \<and> n \<le> 47) \<or> (58 \<le> n \<and> n \<le> 64) \<or> (91 \<le> n \<and> n \<le> 96)
         \<or> (123 \<le> n \<and> n \<le> 126))"

definition stated_normalization :: "string \<Rightarrow> string" where
  "stated_normalization raw = filter (\<lambda>c. \<not> is_punctuation c) (str_lower (str_strip raw))"

text \<open>A classifier that answers with a label broken by a digit, and no client at all.\<close>

definition digit_response :: generation where
  "digit_response = (\<lambda>p. Inr ''com1plex'')"

definition no_client :: "py_error + generation" where
  "no_client = Inl RuntimeError"

text \<open>A state as the router starts with, for the worked examples.\<close>

definition example_state :: adaptive_state where
  "example_state =
     \<lparr>query = ''What is RAG?'', query_type = [], technique = [], confidence = 0\<rparr>"

section \<open>Properties of sorting and slicing\<close>

lemma sorted_reverse_sorted:
  "sorted_wrt (\<lambda>a b. key a \<ge> key b) (sorted_reverse key xs)"
proof -
  have "sorted (map (\<lambda>x. - key x) (sort_key (\<lambda>x. - key x) xs))"
    by (rule sorted_sort_key)
  then show ?thesis
    by (simp add: sorted_reverse_def sorted_map)
qed

lemma sorted_reverse_stable:
  "filter (\<lambda>x. key x = s) (sorted_reverse key xs) = filter (\<lambda>x. key x = s) xs"
  using sort_key_stable [of "\<lambda>x. - key x" "- s" xs]
  by (simp add: sorted_reverse_def)

lemma set_sorted_reverse [simp]: "set (sorted_reverse key xs) = set xs"
  by (simp add: sorted_reverse_def)

lemma length_sorted_reverse [simp]: "length (sorted_reverse key xs) = length xs"
  by (simp add: sorted_reverse_def)

lemma distinct_sorted_reverse [simp]: "distinct (sorted_reverse key xs) = distinct xs"
  by (simp add: sorted_reverse_def)

lemma sorted_reverse_twice:
  "sorted_reverse key (sorted_reverse key xs) = sorted_reverse key xs"
  unfolding sorted_reverse_def
  by (rule sort_key_id_if_sorted) (rule sorted_sort_key)

lemma slice_to_take: "\<exists>m. slice_to n xs = take m xs"
  by (auto simp: slice_to_def)

lemma length_slice_to:
  "0 \<le> n \<Longrightarrow> length (slice_to n xs) = min (nat n) (length xs)"
  by (simp add: slice_to_def min_def)

lemma set_slice_to: "set (slice_to n xs) \<subseteq> set xs"
  by (auto simp: slice_to_def dest: in_set_takeD)

lemma slice_to_all: "int (length xs) \<le> n \<Longrightarrow> slice_to n xs = xs"
  by (simp add: slice_to_def)

lemma subseq_filter_take: "subseq (filter P (take m xs)) (filter P xs)"
proof -
  have "filter P xs = filter P (take m xs) @ filter P (drop m xs)"
    by (metis append_take_drop_id filter_append)
  then show ?thesis
    by (metis prefixI prefix_imp_subseq)
qed

text \<open>The ranking step shared by the three functions.\<close>

lemma ranking_properties:
  fixes key :: "'a \<Rightarrow> rat"
  shows "sorted_wrt (\<lambda>a b. key a \<ge> key b) (slice_to top_k (sorted_reverse key xs))"
    and "subseq (filter (\<lambda>x. key x = s) (slice_to top_k (sorted_reverse key xs))) xs"
    and "0 \<le> top_k \<Longrightarrow>
      length (slice_to top_k (sorted_reverse key xs)) = min (nat top_k) (length xs)"
    and "set (slice_to top_k (sorted_reverse key xs)) \<subseteq> set xs"
proof -
  let ?out = "slice_to top_k (sorted_reverse key xs)"
  obtain m where m: "?out = take m (sorted_reverse key xs)"
    using slice_to_take by blast
  show "sorted_wrt (\<lambda>a b. key a \<ge> key b) ?out"
    unfolding m by (rule sorted_wrt_take) (rule sorted_reverse_sorted)
  have "subseq (filter (\<lambda>x. key x = s) ?out) (filter (\<lambda>x. key x = s) (sorted_reverse key xs))"
    unfolding m by (rule subseq_filter_take)
  then have "subseq (filter (\<lambda>x. key x = s) ?out) (filter (\<lambda>x. key x = s) xs)"
    by (simp add: sorted_reverse_stable)
  then show "subseq (filter (\<lambda>x. key x = s) ?out) xs"
    by (rule subseq_order.trans) simp
  show "0 \<le> top_k \<Longrightarrow> length ?out = min (nat top_k) (length xs)"
    by (simp add: length_slice_to)
  show "set ?out \<subseteq> set xs"
    using set_slice_to [of top_k "sorted_reverse key xs"] by simp
qed

section \<open>Properties of dictionaries and of the first-seen order\<close>

lemma map_of_dict_set: "map_of (dict_set d k v) = (map_of d)(k \<mapsto> v)"
  by (induction d) (auto simp: fun_eq_iff)

lemma keys_dict_set:
  "map fst (dict_set d k v) = (if k \<in> set (map fst d) then map fst d else map fst d @ [k])"
  by (induction d) force+

lemma first_seen_snoc:
  "first_seen (xs @ [x]) = (if x \<in> set xs then first_seen xs else first_seen xs @ [x])"
proof (induction xs)
  case Nil
  show ?case by simp
next
  case (Cons y ys)
  then show ?case by auto
qed

lemma set_first_seen [simp]: "set (first_seen xs) = set xs"
  by (induction xs) auto

lemma distinct_first_seen [simp]: "distinct (first_seen xs)"
  by (induction xs) auto

lemma length_first_seen: "length (first_seen xs) = card (set xs)"
  by (metis distinct_card distinct_first_seen set_first_seen)

text \<open>Contents and occurrences of candidates.\<close>

lemma contents_of_snoc [simp]:
  "contents_of (docs @ [(doc, score)]) = contents_of docs @ [page_content doc]"
  by (simp add: contents_of_def)

lemma occurrences_snoc:
  "occurrences c (docs @ [(doc, score)]) =
     occurrences c docs @ (if page_content doc = c then [(doc, score)] else [])"
  by (simp add: occurrences_def)

lemma occurrences_empty_iff: "occurrences c docs = [] \<longleftrightarrow> c \<notin> set (contents_of docs)"
  by (auto simp: occurrences_def contents_of_def filter_empty_conv image_iff)

lemma in_occurrences:
  "x \<in> set (occurrences c docs) \<longleftrightarrow> x \<in> set docs \<and> page_content (fst x) = c"
  by (auto simp: occurrences_def)

lemma distinct_map_sorted_reverse:
  "distinct (map f (sorted_reverse key xs)) = distinct (map f xs)"
  by (simp add: distinct_map)

lemma distinct_map_slice_to:
  "distinct (map f xs) \<Longrightarrow> distinct (map f (slice_to n xs))"
  by (simp add: slice_to_def take_map [symmetric])

section \<open>Properties of rank fusion\<close>

lemma fuse_ranked_append:
  "fuse_ranked k (xs @ ys) st =
     (case fuse_ranked k xs st of Inl e \<Rightarrow> Inl e | Inr st' \<Rightarrow> fuse_ranked k ys st')"
  by (induction k xs st rule: fuse_ranked.induct) auto

lemma fuse_lists_ranked: "fuse_lists k all_results st = fuse_ranked k (ranked all_results) st"
  by (induction all_results arbitrary: st)
    (auto simp: ranked_def fuse_ranked_append split: sum.splits)

lemma fuse_ranked_fold:
  "fuse_ranked k items st =
     (if \<exists>(rank, doc, score)\<in>set items. k + int rank = 0 then Inl ZeroDivisionError
      else Inr (fuse_fold k items st))"
  by (induction k items st rule: fuse_ranked.induct) (auto simp: fuse_fold_def)

lemma ranked_rank_positive: "(rank, doc, score) \<in> set (ranked all_results) \<Longrightarrow> 1 \<le> rank"
  by (auto simp: ranked_def in_set_enumerate_eq)

lemma map_snd_ranked: "map snd (ranked all_results) = concat all_results"
  by (induction all_results) (auto simp: ranked_def)

lemma fuse_fold_snoc:
  "fuse_fold k (items @ [(rank, doc, score)]) st = fuse_step k rank doc score (fuse_fold k items st)"
  by (simp add: fuse_fold_def)

lemma fuse_fold_Nil: "fuse_fold k [] st = st"
  by (simp add: fuse_fold_def)

lemma rank_sum_absent:
  fixes items :: "(nat \<times> document \<times> rat) list"
  shows "c \<notin> (\<lambda>(rank, doc, score). page_content doc) ` set items \<Longrightarrow>
    (\<Sum>(rank, doc, score)\<leftarrow>items. if page_content doc = c then f rank else 0) = (0::rat)"
  by (induction items) auto

lemma occurrences_absent:
  fixes items :: "(nat \<times> document \<times> rat) list"
  shows "c \<notin> (\<lambda>(rank, doc, score). page_content doc) ` set items \<Longrightarrow>
    occurrences c (map snd items) = []"
  by (force simp: occurrences_def filter_empty_conv)

text \<open>The state after the loops, as a function of the occurrences visited.\<close>

lemma fuse_fold_state:
  fixes items :: "(nat \<times> document \<times> rat) list" and k :: int
  defines "st \<equiv> fuse_fold k items \<lparr>rrf_scores = [], doc_map = [], original_scores = []\<rparr>"
    and "cs \<equiv> map (\<lambda>(rank, doc, score). page_content doc) items"
  shows "map fst (rrf_scores st) = first_seen cs"
    and "map fst (doc_map st) = first_seen cs"
    and "map fst (original_scores st) = first_seen cs"
    and "map_of (rrf_scores st) c =
      (if c \<in> set cs
       then Some (\<Sum>(rank, doc, score)\<leftarrow>items.
                    if page_content doc = c then 1 / of_int (k + int rank) else 0)
       else None)"
    and "map_of (doc_map st) c =
      (if c \<in> set cs then Some (fst (last (occurrences c (map snd items)))) else None)"
    and "map_of (original_scores st) c =
      (if c \<in> set cs then Some (map snd (occurrences c (map snd items))) else None)"
  unfolding st_def cs_def
proof (induction items arbitrary: c rule: rev_induct)
  case Nil
  {
    case 1 show ?case by (simp add: fuse_fold_Nil)
  next
    case 2 show ?case by (simp add: fuse_fold_Nil)
  next
    case 3 show ?case by (simp add: fuse_fold_Nil)
  next
    case 4 show ?case by (simp add: fuse_fold_Nil)
  next
    case 5 show ?case by (simp add: fuse_fold_Nil)
  next
    case 6 show ?case by (simp add: fuse_fold_Nil)
  }
next
  case (snoc x items)
  obtain rank doc score where x: "x = (rank, doc, score)" by (cases x)
  have occ: "occurrences c (map snd items @ [(doc, score)]) =
      occurrences c (map snd items) @ (if page_content doc = c then [(doc, score)] else [])" for c
    by (simp add: occurrences_def)
  {
    case 1 show ?case
      by (simp add: x fuse_fold_snoc fuse_step_def Let_def keys_dict_set snoc.IH(1) first_seen_snoc)
  next
    case 2 show ?case
      by (simp add: x fuse_fold_snoc fuse_step_def Let_def keys_dict_set snoc.IH(2) first_seen_snoc)
  next
    case 3 show ?case
      by (simp add: x fuse_fold_snoc fuse_step_def Let_def keys_dict_set snoc.IH(3) first_seen_snoc)
  next
    case 4 show ?case
      by (simp add: x fuse_fold_snoc fuse_step_def Let_def map_of_dict_set snoc.IH(4) rank_sum_absent)
  next
    case 5 show ?case
      by (simp add: occ x fuse_fold_snoc fuse_step_def Let_def map_of_dict_set snoc.IH(5))
  next
    case 6 show ?case
      by (simp add: occ x fuse_fold_snoc fuse_step_def Let_def map_of_dict_set snoc.IH(6)
          occurrences_absent)
  }
qed

lemma alist_from_keys:
  "distinct (map fst xs) \<Longrightarrow> \<forall>c\<in>set (map fst xs). map_of xs c = Some (f c) \<Longrightarrow>
   xs = map (\<lambda>c. (c, f c)) (map fst xs)"
proof (induction xs)
  case Nil
  show ?case by simp
next
  case (Cons x xs)
  obtain c v where x: "x = (c, v)" by (cases x)
  from Cons.prems have "\<forall>c'\<in>set (map fst xs). map_of xs c' = Some (f c')"
    by (auto simp: x image_iff split: if_splits)
  moreover from Cons.prems have "distinct (map fst xs)" by simp
  ultimately have "xs = map (\<lambda>c. (c, f c)) (map fst xs)" by (rule Cons.IH [rotated])
  moreover from Cons.prems have "v = f c" by (simp add: x)
  ultimately show ?case by (simp add: x)
qed

lemma rrf_sum_ranked:
  "rrf_sum k all_results c =
     (\<Sum>(rank, doc, score)\<leftarrow>ranked all_results.
        if page_content doc = c then 1 / of_int (k + int rank) else 0)"
  by (induction all_results) (simp_all add: rrf_sum_def ranked_def)

lemma contents_ranked:
  "map (\<lambda>(rank, doc, score). page_content doc) (ranked all_results)
     = contents_of (concat all_results)"
proof -
  have "map (\<lambda>(rank, doc, score). page_content doc) (ranked all_results)
      = contents_of (map snd (ranked all_results))"
    by (simp add: contents_of_def case_prod_unfold comp_def)
  then show ?thesis by (simp add: map_snd_ranked)
qed

lemma build_result_total:
  "\<forall>(c, s)\<in>set xs. \<exists>doc. map_of (doc_map st) c = Some doc \<Longrightarrow>
   build_result st xs =
     Inr (map (\<lambda>(c, s). (the (map_of (doc_map st) c), s,
                (case map_of (original_scores st) c of None \<Rightarrow> [] | Some l \<Rightarrow> l))) xs)"
  by (induction st xs rule: build_result.induct) auto

text \<open>
  The result in closed form: the fused candidate of a content carries the document of
  its last occurrence and the scores of all its occurrences.
\<close>

lemma fusion_explicit:
  "reciprocal_rank_fusion all_results k top_k =
     (if \<exists>(rank, doc, score)\<in>set (ranked all_results). k + int rank = 0
      then Inl ZeroDivisionError
      else Inr (map (\<lambda>(c, s). (fst (last (occurrences c (concat all_results))), s,
                       map snd (occurrences c (concat all_results))))
                 (slice_to top_k (sorted_reverse snd
                    (map (\<lambda>c. (c, rrf_sum k all_results c))
                       (first_seen (contents_of (concat all_results))))))))"
proof (cases "\<exists>(rank, doc, score)\<in>set (ranked all_results). k + int rank = 0")
  case True
  then show ?thesis
    by (simp add: reciprocal_rank_fusion_def fuse_lists_ranked fuse_ranked_fold)
next
  case False
  define st where "st = fuse_fold k (ranked all_results)
      \<lparr>rrf_scores = [], doc_map = [], original_scores = []\<rparr>"
  define cs where "cs = contents_of (concat all_results)"
  note state = fuse_fold_state [of k "ranked all_results", folded st_def,
      unfolded contents_ranked map_snd_ranked, folded cs_def]
  have keys: "map fst (rrf_scores st) = first_seen cs" by (rule state(1))
  have "rrf_scores st = map (\<lambda>c. (c, rrf_sum k all_results c)) (map fst (rrf_scores st))"
  proof (rule alist_from_keys)
    show "distinct (map fst (rrf_scores st))" by (simp add: keys)
    show "\<forall>c\<in>set (map fst (rrf_scores st)). map_of (rrf_scores st) c = Some (rrf_sum k all_results c)"
      by (simp add: keys state(4) rrf_sum_ranked)
  qed
  then have scores: "rrf_scores st = map (\<lambda>c. (c, rrf_sum k all_results c)) (first_seen cs)"
    by (simp add: keys)
  define out where "out = slice_to top_k (sorted_reverse snd (rrf_scores st))"
  have out_keys: "\<forall>(c, s)\<in>set out. c \<in> set cs"
  proof -
    have "set out \<subseteq> set (rrf_scores st)"
      unfolding out_def by (rule ranking_properties(4))
    then have "fst ` set out \<subseteq> set (map fst (rrf_scores st))" by auto
    then show ?thesis by (auto simp: keys)
  qed
  have "build_result st out =
      Inr (map (\<lambda>(c, s). (the (map_of (doc_map st) c), s,
                (case map_of (original_scores st) c of None \<Rightarrow> [] | Some l \<Rightarrow> l))) out)"
    by (rule build_result_total) (use out_keys in \<open>auto simp: state(5)\<close>)
  also have "map (\<lambda>(c, s). (the (map_of (doc_map st) c), s,
                (case map_of (original_scores st) c of None \<Rightarrow> [] | Some l \<Rightarrow> l))) out
      = map (\<lambda>(c, s). (fst (last (occurrences c (concat all_results))), s,
                       map snd (occurrences c (concat all_results)))) out"
    by (rule map_cong) (use out_keys in \<open>auto simp: state(5) state(6)\<close>)
  finally have "build_result st out =
      Inr (map (\<lambda>(c, s). (fst (last (occurrences c (concat all_results))), s,
                       map snd (occurrences c (concat all_results)))) out)" .
  with False show ?thesis
    by (simp add: reciprocal_rank_fusion_def fuse_lists_ranked fuse_ranked_fold
        st_def [symmetric] out_def [symmetric])
      (simp add: out_def scores cs_def)
qed

lemma last_occurrence_content:
  "c \<in> set (contents_of docs) \<Longrightarrow> page_content (fst (last (occurrences c docs))) = c"
proof -
  assume "c \<in> set (contents_of docs)"
  then have "occurrences c docs \<noteq> []" by (simp add: occurrences_empty_iff)
  then have "last (occurrences c docs) \<in> set (occurrences c docs)" by (rule last_in_set)
  then show ?thesis by (simp add: in_occurrences)
qed

text \<open>What a returned fusion result consists of.\<close>

lemma fusion_result:
  assumes "reciprocal_rank_fusion all_results k top_k = Inr result"
  defines "docs \<equiv> concat all_results"
  defines "pairs \<equiv> map (\<lambda>c. (c, rrf_sum k all_results c)) (first_seen (contents_of (concat all_results)))"
  defines "out \<equiv> slice_to top_k (sorted_reverse snd pairs)"
  shows "result = map (\<lambda>(c, s). (fst (last (occurrences c docs)), s, map snd (occurrences c docs))) out"
    and "\<forall>(c, s)\<in>set out. c \<in> set (contents_of docs) \<and> s = rrf_sum k all_results c"
    and "map (\<lambda>(doc, rrf_score, scores). page_content doc) result = map fst out"
    and "map (\<lambda>(doc, rrf_score, scores). rrf_score) result = map snd out"
proof -
  show r: "result = map (\<lambda>(c, s). (fst (last (occurrences c docs)), s, map snd (occurrences c docs))) out"
    using assms(1) unfolding fusion_explicit docs_def pairs_def out_def
    by (simp split: if_splits)
  have "set out \<subseteq> set pairs"
    unfolding out_def by (rule ranking_properties(4))
  then show o: "\<forall>(c, s)\<in>set out. c \<in> set (contents_of docs) \<and> s = rrf_sum k all_results c"
    by (auto simp: pairs_def docs_def)
  show "map (\<lambda>(doc, rrf_score, scores). page_content doc) result = map fst out"
    unfolding r map_map
    by (rule map_cong) (use o in \<open>auto simp: last_occurrence_content\<close>)
  show "map (\<lambda>(doc, rrf_score, scores). rrf_score) result = map snd out"
    unfolding r map_map
    by (rule map_cong) auto
qed

lemma fusion_example:
  "reciprocal_rank_fusion [[(doc_A, 9 / 10), (doc_B, 4 / 5)], [(doc_B, 7 / 10), (doc_C, 3 / 5)]]
      default_rrf_k default_top_k
     = Inr [(doc_B, 1 / 62 + 1 / 61, [4 / 5, 7 / 10]), (doc_A, 1 / 61, [9 / 10]),
            (doc_C, 1 / 62, [3 / 5])]"
  by (simp add: reciprocal_rank_fusion_def fuse_step_def doc_A_def doc_B_def doc_C_def
      slice_to_def sorted_reverse_def Let_def default_rrf_k_def default_top_k_def enumerate_eq_zip
      upt_rec)

text \<open>
  Claim C1. Whenever the fusion returns, the fused score of every returned candidate
  is the sum of \<open>1 / (k + r)\<close> over every occurrence of its content at rank \<open>r\<close>
  (counted from 1) in any input list, and every content is returned when \<open>top_k\<close> is
  at least the number of distinct contents; the fusion returns for every \<open>k \<ge> 0\<close>,
  the default \<open>k = 60\<close> included. For the lists \<open>[A, B]\<close> and \<open>[B, C]\<close> with
  \<open>k = 60\<close> the fused scores are \<open>A = 1/61\<close>, \<open>B = 1/62 + 1/61\<close>, \<open>C = 1/62\<close>, in
  the order \<open>[B, A, C]\<close>.
\<close>

theorem rrf_exact:
  "(0 \<le> k \<longrightarrow> (\<exists>result. reciprocal_rank_fusion all_results k top_k = Inr result))
   \<and> (\<forall>result. reciprocal_rank_fusion all_results k top_k = Inr result \<longrightarrow>
        (\<forall>(doc, rrf_score, scores)\<in>set result.
            page_content doc \<in> set (contents_of (concat all_results))
            \<and> rrf_score = rrf_sum k all_results (page_content doc))
        \<and> (int (card (set (contents_of (concat all_results)))) \<le> top_k \<longrightarrow>
            (\<lambda>(doc, rrf_score, scores). page_content doc) ` set result
              = set (contents_of (concat all_results))))
   \<and> default_rrf_k = 60
   \<and> reciprocal_rank_fusion [[(doc_A, 9 / 10), (doc_B, 4 / 5)], [(doc_B, 7 / 10), (doc_C, 3 / 5)]]
        default_rrf_k default_top_k
       = Inr [(doc_B, 1 / 62 + 1 / 61, [4 / 5, 7 / 10]), (doc_A, 1 / 61, [9 / 10]),
              (doc_C, 1 / 62, [3 / 5])]"
proof (intro conjI impI allI)
  assume "0 \<le> k"
  then have "\<not> (\<exists>(rank, doc, score)\<in>set (ranked all_results). k + int rank = 0)"
    by (auto dest: ranked_rank_positive)
  then show "\<exists>result. reciprocal_rank_fusion all_results k top_k = Inr result"
    by (simp add: fusion_explicit)
next
  fix result assume res: "reciprocal_rank_fusion all_results k top_k = Inr result"
  note f = fusion_result [OF res]
  show "\<forall>(doc, rrf_score, scores)\<in>set result.
      page_content doc \<in> set (contents_of (concat all_results))
      \<and> rrf_score = rrf_sum k all_results (page_content doc)"
    unfolding f(1) using f(2) by (auto simp: last_occurrence_content)
next
  fix result assume res: "reciprocal_rank_fusion all_results k top_k = Inr result"
    and big: "int (card (set (contents_of (concat all_results)))) \<le> top_k"
  note f = fusion_result [OF res]
  let ?pairs = "map (\<lambda>c. (c, rrf_sum k all_results c)) (first_seen (contents_of (concat all_results)))"
  have "length (sorted_reverse snd ?pairs) = card (set (contents_of (concat all_results)))"
    by (simp add: length_first_seen)
  with big have "slice_to top_k (sorted_reverse snd ?pairs) = sorted_reverse snd ?pairs"
    by (simp add: slice_to_all)
  then have "set (map fst (slice_to top_k (sorted_reverse snd ?pairs)))
      = set (contents_of (concat all_results))"
    by (simp add: image_image)
  then show "(\<lambda>(doc, rrf_score, scores). page_content doc) ` set result
      = set (contents_of (concat all_results))"
    using f(3) by (metis set_map)
next
  show "default_rrf_k = 60" by (simp add: default_rrf_k_def)
next
  show "reciprocal_rank_fusion [[(doc_A, 9 / 10), (doc_B, 4 / 5)], [(doc_B, 7 / 10), (doc_C, 3 / 5)]]
        default_rrf_k default_top_k
       = Inr [(doc_B, 1 / 62 + 1 / 61, [4 / 5, 7 / 10]), (doc_A, 1 / 61, [9 / 10]),
              (doc_C, 1 / 62, [3 / 5])]"
    by (rule fusion_example)
qed

theorem rrf_exact_witness:
  "(0::int) \<le> default_rrf_k
   \<and> rrf_sum default_rrf_k [[(doc_A, 9 / 10), (doc_B, 4 / 5)], [(doc_B, 7 / 10), (doc_C, 3 / 5)]]
        (page_content doc_B) = 1 / 62 + 1 / 61"
proof -
  let ?lists = "[[(doc_A, 9 / 10), (doc_B, 4 / 5)], [(doc_B, 7 / 10), (doc_C, 3 / 5 :: rat)]]"
  let ?result = "[(doc_B, 1 / 62 + 1 / 61, [4 / 5, 7 / 10]), (doc_A, 1 / 61, [9 / 10]),
      (doc_C, 1 / 62, [3 / 5 :: rat])]"
  note t = rrf_exact [of default_rrf_k ?lists default_top_k]
  from t have ret: "reciprocal_rank_fusion ?lists default_rrf_k default_top_k = Inr ?result"
    by (elim conjE)
  from t have "\<forall>result. reciprocal_rank_fusion ?lists default_rrf_k default_top_k = Inr result \<longrightarrow>
      (\<forall>(doc, rrf_score, scores)\<in>set result.
          page_content doc \<in> set (contents_of (concat ?lists))
          \<and> rrf_score = rrf_sum default_rrf_k ?lists (page_content doc))"
    by blast
  with ret have "\<forall>(doc, rrf_score, scores)\<in>set ?result.
      rrf_score = rrf_sum default_rrf_k ?lists (page_content doc)"
    by blast
  then have "rrf_sum default_rrf_k ?lists (page_content doc_B) = 1 / 62 + 1 / 61"
    by simp
  then show ?thesis by (simp add: default_rrf_k_def)
qed

text \<open>
  Claim C8, as amended. In rank fusion candidate identity is exact content equality:
  the returned candidates have pairwise different contents. The document kept for a
  fused candidate is the one of the last occurrence of its content across the input
  lists, in the order in which the lists are visited, and the scores kept are those of
  all its occurrences, in that order.
\<close>

theorem fusion_keeps_last_document:
  "(\<forall>result. reciprocal_rank_fusion all_results k top_k = Inr result \<longrightarrow>
      distinct (map (\<lambda>(doc, rrf_score, scores). page_content doc) result)
      \<and> (\<forall>(doc, rrf_score, scores)\<in>set result.
            occurrences (page_content doc) (concat all_results) \<noteq> []
            \<and> doc = fst (last (occurrences (page_content doc) (concat all_results)))
            \<and> scores = map snd (occurrences (page_content doc) (concat all_results))))"
proof (intro allI impI conjI)
  fix result assume res: "reciprocal_rank_fusion all_results k top_k = Inr result"
  note f = fusion_result [OF res]
  let ?pairs = "map (\<lambda>c. (c, rrf_sum k all_results c)) (first_seen (contents_of (concat all_results)))"
  have "distinct (map fst ?pairs)" by (simp add: comp_def)
  then have "distinct (map fst (slice_to top_k (sorted_reverse snd ?pairs)))"
    by (intro distinct_map_slice_to) (simp only: distinct_map_sorted_reverse)
  then show "distinct (map (\<lambda>(doc, rrf_score, scores). page_content doc) result)"
    by (simp only: f(3))
  show "\<forall>(doc, rrf_score, scores)\<in>set result.
      occurrences (page_content doc) (concat all_results) \<noteq> []
      \<and> doc = fst (last (occurrences (page_content doc) (concat all_results)))
      \<and> scores = map snd (occurrences (page_content doc) (concat all_results))"
    unfolding f(1) using f(2)
    by (auto simp: last_occurrence_content occurrences_empty_iff)
qed

lemma fusion_last_example:
  "reciprocal_rank_fusion [[(doc_A_one, 9 / 10)], [(doc_A_two, 4 / 5)]] default_rrf_k default_top_k
     = Inr [(doc_A_two, 2 / 61, [9 / 10, 4 / 5])]"
  by (simp add: reciprocal_rank_fusion_def fuse_step_def doc_A_one_def doc_A_two_def
      slice_to_def sorted_reverse_def Let_def default_rrf_k_def default_top_k_def enumerate_eq_zip
      upt_rec)

theorem fusion_keeps_last_document_witness:
  "fst (last (occurrences (page_content doc_A_two) (concat [[(doc_A_one, 9 / 10)], [(doc_A_two, 4 / 5)]])))
     = doc_A_two"
proof -
  let ?lists = "[[(doc_A_one, 9 / 10)], [(doc_A_two, 4 / 5 :: rat)]]"
  from fusion_keeps_last_document [of ?lists default_rrf_k default_top_k] fusion_last_example
  have "\<forall>(doc, rrf_score, scores)\<in>set [(doc_A_two, 2 / 61 :: rat, [9 / 10, 4 / 5 :: rat])].
      occurrences (page_content doc) (concat ?lists) \<noteq> []
      \<and> doc = fst (last (occurrences (page_content doc) (concat ?lists)))
      \<and> scores = map snd (occurrences (page_content doc) (concat ?lists))"
    by blast
  then show ?thesis by simp
qed

text \<open>
  Claim C8 as stated fails: a content occurs in two lists with different metadata, and
  the fused candidate carries the document of the second list, not of the first.
\<close>

theorem fusion_first_document_counterexample:
  "reciprocal_rank_fusion [[(doc_A_one, 9 / 10)], [(doc_A_two, 4 / 5)]] default_rrf_k default_top_k
     = Inr [(doc_A_two, 2 / 61, [9 / 10, 4 / 5])]
   \<and> page_content doc_A_one = page_content doc_A_two
   \<and> doc_A_two \<noteq> doc_A_one"
  by (simp add: reciprocal_rank_fusion_def fuse_step_def doc_A_one_def doc_A_two_def
      slice_to_def sorted_reverse_def Let_def default_rrf_k_def default_top_k_def enumerate_eq_zip
      upt_rec)

section \<open>Properties of deduplication\<close>

lemma dedup_loop_append:
  "dedup_loop (xs @ ys) seen = dedup_loop ys (dedup_loop xs seen)"
  by (induction xs seen rule: dedup_loop.induct) (simp_all add: Let_def)

text \<open>
  The dictionary after the loop of the deduplication: its keys are the contents in
  first-seen order, and the pair kept for a content is one of its occurrences, with a
  score that no occurrence of the content exceeds.
\<close>

lemma dedup_loop_state:
  "map fst (dedup_loop docs []) = first_seen (contents_of docs)
   \<and> (\<forall>c kept. map_of (dedup_loop docs []) c = Some kept \<longrightarrow>
        kept \<in> set (occurrences c docs) \<and> (\<forall>x\<in>set (occurrences c docs). snd x \<le> snd kept))"
proof (induction docs rule: rev_induct)
  case Nil
  show ?case by (simp add: contents_of_def)
next
  case (snoc x docs)
  obtain doc score where x: "x = (doc, score)" by (cases x)
  define D where "D = dedup_loop docs []"
  define c0 where "c0 = page_content doc"
  define D' where "D' = dedup_loop (docs @ [(doc, score)]) []"
  from snoc.IH have keys: "map fst D = first_seen (contents_of docs)"
    and kept: "\<And>c kept. map_of D c = Some kept \<Longrightarrow>
        kept \<in> set (occurrences c docs) \<and> (\<forall>x\<in>set (occurrences c docs). snd x \<le> snd kept)"
    unfolding D_def by blast+
  have none: "map_of D c = None \<longleftrightarrow> c \<notin> set (contents_of docs)" for c
    using keys by (metis map_of_eq_None_iff set_first_seen set_map)
  have step: "D' = (case map_of D c0 of
        None \<Rightarrow> dict_set D c0 (doc, score)
      | Some old \<Rightarrow> if score > snd old then dict_set D c0 (doc, score) else D)"
    by (simp add: D'_def dedup_loop_append D_def [symmetric] c0_def [symmetric] Let_def)
  have occ0: "occurrences c0 (docs @ [(doc, score)]) = occurrences c0 docs @ [(doc, score)]"
    by (simp add: occurrences_snoc c0_def)
  have occ: "c \<noteq> c0 \<Longrightarrow> occurrences c (docs @ [(doc, score)]) = occurrences c docs" for c
    by (simp add: occurrences_snoc c0_def)
  have keys': "map fst D' = first_seen (contents_of (docs @ [(doc, score)]))"
  proof (cases "map_of D c0")
    case None
    then show ?thesis
      using none [of c0]
      by (simp add: step keys_dict_set keys first_seen_snoc c0_def [symmetric])
  next
    case (Some old)
    then have "c0 \<in> set (contents_of docs)" using none [of c0] by auto
    then show ?thesis
      by (simp add: step Some keys_dict_set keys first_seen_snoc c0_def [symmetric])
  qed
  have vals: "kept' \<in> set (occurrences c (docs @ [(doc, score)]))
      \<and> (\<forall>y\<in>set (occurrences c (docs @ [(doc, score)])). snd y \<le> snd kept')"
    if look: "map_of D' c = Some kept'" for c kept'
  proof (cases "c = c0")
    case False
    have "map_of D' c = map_of D c"
      using False by (auto simp: step map_of_dict_set split: option.splits)
    with look kept [of c kept'] show ?thesis by (simp add: occ [OF False])
  next
    case True
    show ?thesis
    proof (cases "map_of D c0")
      case None
      then have "occurrences c0 docs = []"
        using none [of c0] by (simp add: occurrences_empty_iff)
      moreover have "kept' = (doc, score)"
        using look by (simp add: True step None map_of_dict_set)
      ultimately show ?thesis by (simp add: True occ0)
    next
      case (Some old)
      note old = kept [OF Some]
      show ?thesis
      proof (cases "score > snd old")
        case greater: True
        then have "kept' = (doc, score)"
          using look by (simp add: True step Some map_of_dict_set)
        moreover have "\<forall>y\<in>set (occurrences c0 docs). snd y \<le> score"
          using old greater by force
        ultimately show ?thesis by (simp add: True occ0)
      next
        case False
        then have "kept' = old"
          using look by (simp add: True step Some)
        with old False show ?thesis by (auto simp: True occ0)
      qed
    qed
  qed
  show ?case
    using keys' vals unfolding x D'_def by blast
qed

lemma dedup_and_select_slice:
  "dedup_and_select docs top_k = slice_to top_k (sorted_reverse snd (map snd (dedup_loop docs [])))"
  by (simp add: dedup_and_select_def deduplicate_docs_def sorted_reverse_twice)

text \<open>The candidates kept by the deduplication, in first-seen order of their contents.\<close>

lemma dedup_kept:
  defines "kept_of \<equiv> \<lambda>docs. map snd (dedup_loop docs [])"
  shows "contents_of (kept_of docs) = first_seen (contents_of docs)"
    and "x \<in> set (kept_of docs) \<Longrightarrow>
      x \<in> set docs \<and> (\<forall>y\<in>set docs. page_content (fst y) = page_content (fst x) \<longrightarrow> snd y \<le> snd x)"
proof -
  note state = dedup_loop_state [of docs]
  have dist: "distinct (map fst (dedup_loop docs []))"
    using state by simp
  have entry: "kept \<in> set (occurrences c docs)
      \<and> (\<forall>y\<in>set (occurrences c docs). snd y \<le> snd kept)"
    if "(c, kept) \<in> set (dedup_loop docs [])" for c kept
    using state that dist by (metis map_of_eq_Some_iff)
  have "map (\<lambda>(c, kept). page_content (fst kept)) (dedup_loop docs [])
      = map fst (dedup_loop docs [])"
    by (rule map_cong) (use entry in \<open>auto simp: in_occurrences\<close>)
  then show "contents_of (kept_of docs) = first_seen (contents_of docs)"
    using state by (simp add: kept_of_def contents_of_def case_prod_unfold comp_def)
  assume "x \<in> set (kept_of docs)"
  then obtain c where "(c, x) \<in> set (dedup_loop docs [])"
    by (auto simp: kept_of_def)
  from entry [OF this] show "x \<in> set docs
      \<and> (\<forall>y\<in>set docs. page_content (fst y) = page_content (fst x) \<longrightarrow> snd y \<le> snd x)"
    by (auto simp: in_occurrences)
qed

lemma dedup_example:
  "dedup_and_select [(doc_D1, 7 / 10), (doc_D2, 1 / 2), (doc_D1, 9 / 10)] 2
     = [(doc_D1, 9 / 10), (doc_D2, 1 / 2)]"
  by (simp add: dedup_and_select_def deduplicate_docs_def sorted_reverse_def slice_to_def
      doc_D1_def doc_D2_def Let_def)

text \<open>The pair kept for a content is the first of its occurrences with the maximal score.\<close>

lemma dedup_loop_first:
  "map_of (dedup_loop docs []) c = Some kept \<Longrightarrow>
   \<forall>x\<in>set (takeWhile (\<lambda>x. x \<noteq> kept) (occurrences c docs)). snd x < snd kept"
proof (induction docs arbitrary: c kept rule: rev_induct)
  case Nil
  then show ?case by simp
next
  case (snoc x docs)
  obtain doc score where x: "x = (doc, score)" by (cases x)
  define D where "D = dedup_loop docs []"
  define c0 where "c0 = page_content doc"
  have state: "\<And>c kept. map_of D c = Some kept \<Longrightarrow>
        kept \<in> set (occurrences c docs) \<and> (\<forall>x\<in>set (occurrences c docs). snd x \<le> snd kept)"
    using dedup_loop_state [of docs] unfolding D_def by blast
  have keys: "map fst D = first_seen (contents_of docs)"
    using dedup_loop_state [of docs] unfolding D_def by blast
  have none: "map_of D c = None \<longleftrightarrow> c \<notin> set (contents_of docs)" for c
    using keys by (metis map_of_eq_None_iff set_first_seen set_map)
  have step: "dedup_loop (docs @ [(doc, score)]) [] = (case map_of D c0 of
        None \<Rightarrow> dict_set D c0 (doc, score)
      | Some old \<Rightarrow> if score > snd old then dict_set D c0 (doc, score) else D)"
    by (simp add: dedup_loop_append D_def [symmetric] c0_def [symmetric] Let_def)
  have occ0: "occurrences c0 (docs @ [(doc, score)]) = occurrences c0 docs @ [(doc, score)]"
    by (simp add: occurrences_snoc c0_def)
  have occ: "c \<noteq> c0 \<Longrightarrow> occurrences c (docs @ [(doc, score)]) = occurrences c docs" for c
    by (simp add: occurrences_snoc c0_def)
  from snoc.prems have look: "map_of (dedup_loop (docs @ [(doc, score)]) []) c = Some kept"
    by (simp add: x)
  have "\<forall>y\<in>set (takeWhile (\<lambda>y. y \<noteq> kept) (occurrences c (docs @ [(doc, score)]))). snd y < snd kept"
  proof (cases "c = c0")
    case False
    have "map_of (dedup_loop (docs @ [(doc, score)]) []) c = map_of D c"
      using False by (auto simp: step map_of_dict_set split: option.splits)
    with look have "map_of (dedup_loop docs []) c = Some kept" by (simp add: D_def)
    from snoc.IH [OF this] show ?thesis by (simp add: occ [OF False])
  next
    case True
    show ?thesis
    proof (cases "map_of D c0")
      case None
      then have "occurrences c0 docs = []"
        using none [of c0] by (simp add: occurrences_empty_iff)
      moreover have "kept = (doc, score)"
        using look by (simp add: True step None map_of_dict_set)
      ultimately show ?thesis by (simp add: True occ0)
    next
      case (Some old)
      note old = state [OF Some]
      show ?thesis
      proof (cases "score > snd old")
        case greater: True
        then have k: "kept = (doc, score)"
          using look by (simp add: True step Some map_of_dict_set)
        have below: "\<forall>y\<in>set (occurrences c0 docs). snd y < score"
          using old greater by force
        then have "\<forall>y\<in>set (occurrences c0 docs). y \<noteq> (doc, score)" by auto
        then have "takeWhile (\<lambda>y. y \<noteq> (doc, score)) (occurrences c0 docs @ [(doc, score)])
            = occurrences c0 docs"
          by (simp add: takeWhile_append2)
        with below show ?thesis by (simp add: True occ0 k)
      next
        case False
        then have k: "kept = old"
          using look by (simp add: True step Some)
        have "map_of (dedup_loop docs []) c0 = Some old" using Some by (simp add: D_def)
        from snoc.IH [OF this]
        have "\<forall>y\<in>set (takeWhile (\<lambda>y. y \<noteq> old) (occurrences c0 docs)). snd y < snd old" .
        moreover have "old \<in> set (occurrences c0 docs)" using old by simp
        then have "takeWhile (\<lambda>y. y \<noteq> old) (occurrences c0 docs @ [(doc, score)])
            = takeWhile (\<lambda>y. y \<noteq> old) (occurrences c0 docs)"
          by (simp add: takeWhile_append1)
        ultimately show ?thesis by (simp add: True occ0 k)
      qed
    qed
  qed
  then show ?case by (simp add: x)
qed

lemma dedup_kept_first:
  assumes "x \<in> set (map snd (dedup_loop docs []))"
  shows "\<forall>y\<in>set (takeWhile (\<lambda>y. y \<noteq> x) (occurrences (page_content (fst x)) docs)). snd y < snd x"
proof -
  from assms obtain c where c: "(c, x) \<in> set (dedup_loop docs [])" by auto
  have "distinct (map fst (dedup_loop docs []))"
    using dedup_loop_state [of docs] by simp
  with c have look: "map_of (dedup_loop docs []) c = Some x" by simp
  with dedup_loop_state [of docs] have "x \<in> set (occurrences c docs)" by blast
  then have "page_content (fst x) = c" by (simp add: in_occurrences)
  with dedup_loop_first [OF look] show ?thesis by simp
qed

text \<open>The properties of deduplication and selection, for any Python int \<open>top_k\<close>.\<close>

lemma dedup_select_properties:
  "(\<forall>(doc, score)\<in>set (dedup_and_select docs top_k).
      (doc, score) \<in> set docs
      \<and> (\<forall>(doc', score')\<in>set docs. page_content doc' = page_content doc \<longrightarrow> score' \<le> score))
   \<and> distinct (contents_of (dedup_and_select docs top_k))
   \<and> sorted_wrt (\<lambda>a b. snd a \<ge> snd b) (dedup_and_select docs top_k)
   \<and> set (contents_of (deduplicate_docs docs)) = set (contents_of docs)
   \<and> (0 \<le> top_k \<longrightarrow>
        dedup_and_select docs top_k = take (nat top_k) (deduplicate_docs docs)
        \<and> length (dedup_and_select docs top_k) = min (nat top_k) (card (set (contents_of docs))))
   \<and> dedup_and_select [(doc_D1, 7 / 10), (doc_D2, 1 / 2), (doc_D1, 9 / 10)] 2
        = [(doc_D1, 9 / 10), (doc_D2, 1 / 2)]"
proof -
  define U where "U = map snd (dedup_loop docs [])"
  have out: "dedup_and_select docs top_k = slice_to top_k (sorted_reverse snd U)"
    by (simp add: dedup_and_select_slice U_def)
  have cont: "contents_of U = first_seen (contents_of docs)"
    unfolding U_def by (rule dedup_kept(1))
  have sub: "set (dedup_and_select docs top_k) \<subseteq> set U"
    unfolding out by (rule ranking_properties(4))
  have 1: "\<forall>(doc, score)\<in>set (dedup_and_select docs top_k).
      (doc, score) \<in> set docs
      \<and> (\<forall>(doc', score')\<in>set docs. page_content doc' = page_content doc \<longrightarrow> score' \<le> score)"
  proof (clarify, intro conjI)
    fix doc score assume "(doc, score) \<in> set (dedup_and_select docs top_k)"
    then have "(doc, score) \<in> set (map snd (dedup_loop docs []))"
      using sub by (auto simp: U_def)
    from dedup_kept(2) [OF this]
    show "(doc, score) \<in> set docs"
      and "\<forall>(doc', score')\<in>set docs. page_content doc' = page_content doc \<longrightarrow> score' \<le> score"
      by auto
  qed
  have "distinct (contents_of U)" by (simp add: cont)
  then have 2: "distinct (contents_of (dedup_and_select docs top_k))"
    unfolding out contents_of_def
    by (intro distinct_map_slice_to) (simp add: distinct_map_sorted_reverse)
  have 3: "sorted_wrt (\<lambda>a b. snd a \<ge> snd b) (dedup_and_select docs top_k)"
    unfolding out by (rule ranking_properties(1))
  have dd: "deduplicate_docs docs = sorted_reverse snd U"
    by (simp add: deduplicate_docs_def U_def)
  have "set (contents_of (deduplicate_docs docs)) = set (contents_of U)"
    by (simp add: dd contents_of_def)
  then have 4: "set (contents_of (deduplicate_docs docs)) = set (contents_of docs)"
    by (simp add: cont)
  have "length U = card (set (contents_of docs))"
    using cont length_first_seen [of "contents_of docs"]
    by (metis contents_of_def length_map)
  then have 5: "0 \<le> top_k \<longrightarrow>
        dedup_and_select docs top_k = take (nat top_k) (deduplicate_docs docs)
        \<and> length (dedup_and_select docs top_k) = min (nat top_k) (card (set (contents_of docs)))"
    by (simp add: out dd slice_to_def min.commute)
  from 1 2 3 4 5 dedup_example show ?thesis by blast
qed

text \<open>
  Claim C3. The requested result count \<open>top_k\<close> is a natural number \<open>n\<close> (the API
  accepts 1 to 20, and \<open>subquery_rag\<close> defaults to 5). Every candidate returned by
  deduplication and selection is a candidate of the input whose score is the maximum
  over the input candidates with the same content, and among the occurrences of that
  content it is the first with this score: every earlier occurrence has a strictly
  smaller score. The contents returned are pairwise different, the output is sorted by
  descending score, the deduplicated list holds every content of the input, and the
  output is the first \<open>n\<close> candidates of the deduplicated sorted list, of length
  \<open>min(n, number of distinct contents)\<close>. The input
  \<open>[(D1, 0.7), (D2, 0.5), (D1, 0.9)]\<close> with \<open>top_k = 2\<close> gives
  \<open>[(D1, 0.9), (D2, 0.5)]\<close>.
\<close>

theorem dedup_keeps_maximum:
  "(\<forall>(doc, score)\<in>set (dedup_and_select docs top_k).
      (doc, score) \<in> set docs
      \<and> (\<forall>(doc', score')\<in>set docs. page_content doc' = page_content doc \<longrightarrow> score' \<le> score)
      \<and> (\<forall>(doc', score')\<in>set (takeWhile (\<lambda>x. x \<noteq> (doc, score))
                                   (occurrences (page_content doc) docs)). score' < score))
   \<and> distinct (contents_of (dedup_and_select docs top_k))
   \<and> sorted_wrt (\<lambda>a b. snd a \<ge> snd b) (dedup_and_select docs top_k)
   \<and> set (contents_of (deduplicate_docs docs)) = set (contents_of docs)
   \<and> dedup_and_select docs (int n) = take n (deduplicate_docs docs)
   \<and> length (dedup_and_select docs (int n)) = min n (card (set (contents_of docs)))
   \<and> dedup_and_select [(doc_D1, 7 / 10), (doc_D2, 1 / 2), (doc_D1, 9 / 10)] 2
        = [(doc_D1, 9 / 10), (doc_D2, 1 / 2)]"
proof -
  note p = dedup_select_properties [of docs top_k]
  note q = dedup_select_properties [of docs "int n"]
  have first: "\<forall>(doc', score')\<in>set (takeWhile (\<lambda>x. x \<noteq> (doc, score))
      (occurrences (page_content doc) docs)). score' < score"
    if "(doc, score) \<in> set (dedup_and_select docs top_k)" for doc score
  proof -
    have "set (dedup_and_select docs top_k) \<subseteq> set (map snd (dedup_loop docs []))"
      unfolding dedup_and_select_slice by (rule ranking_properties(4))
    with that have "(doc, score) \<in> set (map snd (dedup_loop docs []))" by blast
    from dedup_kept_first [OF this] show ?thesis by auto
  qed
  from p have 1: "\<forall>(doc, score)\<in>set (dedup_and_select docs top_k).
      (doc, score) \<in> set docs
      \<and> (\<forall>(doc', score')\<in>set docs. page_content doc' = page_content doc \<longrightarrow> score' \<le> score)"
    by (elim conjE)
  from 1 first have both: "\<forall>(doc, score)\<in>set (dedup_and_select docs top_k).
      (doc, score) \<in> set docs
      \<and> (\<forall>(doc', score')\<in>set docs. page_content doc' = page_content doc \<longrightarrow> score' \<le> score)
      \<and> (\<forall>(doc', score')\<in>set (takeWhile (\<lambda>x. x \<noteq> (doc, score))
                                   (occurrences (page_content doc) docs)). score' < score)"
    by blast
  from p have 2: "distinct (contents_of (dedup_and_select docs top_k))"
    by (elim conjE)
  from p have 3: "sorted_wrt (\<lambda>a b. snd a \<ge> snd b) (dedup_and_select docs top_k)"
    by (elim conjE)
  from p have 4: "set (contents_of (deduplicate_docs docs)) = set (contents_of docs)"
    by (elim conjE)
  from q have bound: "0 \<le> int n \<longrightarrow>
      dedup_and_select docs (int n) = take (nat (int n)) (deduplicate_docs docs)
      \<and> length (dedup_and_select docs (int n)) = min (nat (int n)) (card (set (contents_of docs)))"
    by (elim conjE)
  have nonneg: "0 \<le> int n" by simp
  note count = bound [THEN mp, OF nonneg, unfolded nat_int]
  from count have 5: "dedup_and_select docs (int n) = take n (deduplicate_docs docs)"
    by (rule conjunct1)
  from count have 6: "length (dedup_and_select docs (int n)) = min n (card (set (contents_of docs)))"
    by (rule conjunct2)
  from both 2 3 4 5 6 dedup_example show ?thesis by (intro conjI)
qed

theorem dedup_keeps_maximum_witness:
  "(doc_D1, 9 / 10) \<in> set [(doc_D1, 7 / 10 :: rat), (doc_D2, 1 / 2), (doc_D1, 9 / 10)]
   \<and> (7 / 10 :: rat) \<le> 9 / 10
   \<and> length (dedup_and_select [(doc_D1, 7 / 10), (doc_D2, 1 / 2), (doc_D1, 9 / 10)] (int 2))
       = min 2 (card (set (contents_of [(doc_D1, 7 / 10), (doc_D2, 1 / 2), (doc_D1, 9 / 10)])))"
proof -
  note t = dedup_keeps_maximum [of "[(doc_D1, 7 / 10), (doc_D2, 1 / 2), (doc_D1, 9 / 10)]" 2 2]
  from t have v: "dedup_and_select [(doc_D1, 7 / 10), (doc_D2, 1 / 2), (doc_D1, 9 / 10)] 2
      = [(doc_D1, 9 / 10), (doc_D2, 1 / 2)]"
    by (elim conjE)
  from t have "\<forall>(doc, score)\<in>set (dedup_and_select [(doc_D1, 7 / 10), (doc_D2, 1 / 2), (doc_D1, 9 / 10)] 2).
      (doc, score) \<in> set [(doc_D1, 7 / 10), (doc_D2, 1 / 2), (doc_D1, 9 / 10)]
      \<and> (\<forall>(doc', score')\<in>set [(doc_D1, 7 / 10), (doc_D2, 1 / 2), (doc_D1, 9 / 10)].
            page_content doc' = page_content doc \<longrightarrow> score' \<le> score)"
    by (elim conjE) blast
  then have m: "(doc_D1, 9 / 10) \<in> set [(doc_D1, 7 / 10 :: rat), (doc_D2, 1 / 2), (doc_D1, 9 / 10)]
      \<and> (7 / 10 :: rat) \<le> 9 / 10"
    unfolding v by simp
  from t have l: "length (dedup_and_select [(doc_D1, 7 / 10), (doc_D2, 1 / 2), (doc_D1, 9 / 10)] (int 2))
       = min 2 (card (set (contents_of [(doc_D1, 7 / 10), (doc_D2, 1 / 2), (doc_D1, 9 / 10)])))"
    by (elim conjE)
  from m l show ?thesis by (intro conjI) blast+
qed

section \<open>Properties shared by the three ranked lists\<close>

text \<open>
  The properties of the three ranked lists, for any Python int \<open>top_k\<close>: each list is
  sorted by descending score, candidates with equal scores keep their first-seen order,
  and a non-negative \<open>top_k\<close> bounds the length.
\<close>

lemma ranked_lists_properties:
  "(\<forall>result. reciprocal_rank_fusion all_results k top_k = Inr result \<longrightarrow>
      sorted_wrt (\<lambda>a b. fst (snd a) \<ge> fst (snd b)) result
      \<and> (\<forall>s. subseq (map (\<lambda>(doc, rrf_score, scores). page_content doc)
                        (filter (\<lambda>(doc, rrf_score, scores). rrf_score = s) result))
                      (first_seen (contents_of (concat all_results))))
      \<and> (0 \<le> top_k \<longrightarrow> int (length result) \<le> top_k))
   \<and> (sorted_wrt (\<lambda>a b. snd a \<ge> snd b) (dedup_and_select docs top_k)
      \<and> (\<forall>s. subseq (contents_of (filter (\<lambda>(doc, score). score = s) (dedup_and_select docs top_k)))
                      (first_seen (contents_of docs)))
      \<and> (0 \<le> top_k \<longrightarrow> int (length (dedup_and_select docs top_k)) \<le> top_k))
   \<and> (sorted_wrt (\<lambda>a b. snd a \<ge> snd b) (filter_docs_by_entities docs entities top_k)
      \<and> (\<forall>s. subseq (filter (\<lambda>(doc, score). score = s) (filter_docs_by_entities docs entities top_k))
                      (map (combined_score entities) docs))
      \<and> (0 \<le> top_k \<longrightarrow> int (length (filter_docs_by_entities docs entities top_k)) \<le> top_k))"
proof (intro conjI allI impI)
  fix result assume res: "reciprocal_rank_fusion all_results k top_k = Inr result"
  note f = fusion_result [OF res]
  let ?pairs = "map (\<lambda>c. (c, rrf_sum k all_results c)) (first_seen (contents_of (concat all_results)))"
  let ?out = "slice_to top_k (sorted_reverse snd ?pairs)"
  have "sorted_wrt (\<lambda>a b. snd a \<ge> snd b) ?out"
    by (rule ranking_properties(1))
  then have "sorted_wrt (\<lambda>a b. a \<ge> b) (map snd ?out)"
    by (simp add: sorted_wrt_map)
  then have "sorted_wrt (\<lambda>a b. a \<ge> b) (map (\<lambda>(doc, rrf_score, scores). rrf_score) result)"
    by (simp only: f(4))
  then show "sorted_wrt (\<lambda>a b. fst (snd a) \<ge> fst (snd b)) result"
    by (simp add: sorted_wrt_map case_prod_unfold)
  {
    fix s
    have "subseq (filter (\<lambda>x. snd x = s) ?out) ?pairs"
      by (rule ranking_properties(2))
    then have "subseq (map fst (filter (\<lambda>x. snd x = s) ?out)) (map fst ?pairs)"
      by (rule subseq_map)
    moreover have "map fst ?pairs = first_seen (contents_of (concat all_results))"
      by (simp add: comp_def)
    moreover have "map (\<lambda>(doc, rrf_score, scores). page_content doc)
          (filter (\<lambda>(doc, rrf_score, scores). rrf_score = s) result)
        = map fst (filter (\<lambda>x. snd x = s) ?out)"
    proof -
      have "map (\<lambda>(doc, rrf_score, scores). page_content doc)
          (filter (\<lambda>(doc, rrf_score, scores). rrf_score = s) result)
        = map (\<lambda>(c, s). page_content (fst (last (occurrences c (concat all_results)))))
            (filter (\<lambda>x. snd x = s) ?out)"
        unfolding f(1) by (simp add: filter_map comp_def case_prod_unfold)
      also have "\<dots> = map fst (filter (\<lambda>x. snd x = s) ?out)"
        by (rule map_cong) (use f(2) in \<open>auto simp: last_occurrence_content\<close>)
      finally show ?thesis .
    qed
    ultimately show "subseq (map (\<lambda>(doc, rrf_score, scores). page_content doc)
          (filter (\<lambda>(doc, rrf_score, scores). rrf_score = s) result))
        (first_seen (contents_of (concat all_results)))"
      by simp
  }
  {
    assume "0 \<le> top_k"
    then have "length ?out = min (nat top_k) (length ?pairs)"
      by (rule ranking_properties(3))
    moreover have "length result = length ?out"
      using f(1) by simp
    ultimately show "int (length result) \<le> top_k"
      using \<open>0 \<le> top_k\<close> by simp
  }
next
  show "sorted_wrt (\<lambda>a b. snd a \<ge> snd b) (dedup_and_select docs top_k)"
    unfolding dedup_and_select_slice by (rule ranking_properties(1))
next
  fix s
  let ?U = "map snd (dedup_loop docs [])"
  have "subseq (filter (\<lambda>x. snd x = s) (dedup_and_select docs top_k)) ?U"
    unfolding dedup_and_select_slice by (rule ranking_properties(2))
  then have "subseq (contents_of (filter (\<lambda>x. snd x = s) (dedup_and_select docs top_k)))
      (contents_of ?U)"
    unfolding contents_of_def by (rule subseq_map)
  then show "subseq (contents_of (filter (\<lambda>(doc, score). score = s) (dedup_and_select docs top_k)))
      (first_seen (contents_of docs))"
    by (simp add: dedup_kept(1) case_prod_unfold)
next
  assume "0 \<le> top_k"
  then show "int (length (dedup_and_select docs top_k)) \<le> top_k"
    unfolding dedup_and_select_slice by (simp add: ranking_properties(3))
next
  show "sorted_wrt (\<lambda>a b. snd a \<ge> snd b) (filter_docs_by_entities docs entities top_k)"
    unfolding filter_docs_by_entities_def Let_def by (rule ranking_properties(1))
next
  fix s
  have "subseq (filter (\<lambda>x. snd x = s) (filter_docs_by_entities docs entities top_k))
      (map (combined_score entities) docs)"
    unfolding filter_docs_by_entities_def Let_def by (rule ranking_properties(2))
  then show "subseq (filter (\<lambda>(doc, score). score = s) (filter_docs_by_entities docs entities top_k))
      (map (combined_score entities) docs)"
    by (simp add: case_prod_unfold)
next
  assume "0 \<le> top_k"
  then show "int (length (filter_docs_by_entities docs entities top_k)) \<le> top_k"
    unfolding filter_docs_by_entities_def Let_def by (simp add: ranking_properties(3))
qed

lemma filter_example:
  "filter_docs_by_entities [(doc_A, 1 / 2), (doc_python, 1 / 2)] {''python'', ''GUIDO'', ''xyz''} 5
     = [(doc_python, 3 / 5), (doc_A, 1 / 2)]"
  by (simp add: filter_docs_by_entities_def combined_score_def doc_A_def doc_python_def
      str_lower_def char_lower_def upper_letters_def lower_letters_def slice_to_def sorted_reverse_def Let_def
      Collect_conv_if card_insert_if conj_disj_distribR Collect_disj_eq)

text \<open>
  Claim C2. The requested result count \<open>top_k\<close> is a natural number \<open>n\<close> (the API
  accepts 1 to 20, and the pipelines default to 5). The list returned by the fusion
  (whenever it returns), by deduplication and selection, and by the graph entity filter
  is sorted by descending score; candidates with equal scores appear in first-seen
  order (for the fusion and the deduplication, the order in which their contents are
  first seen in the input; for the entity filter, the order of the input list); and the
  length of the list never exceeds the requested count.
\<close>

theorem ranked_lists_sorted_stable_bounded:
  "(\<forall>result. reciprocal_rank_fusion all_results k top_k = Inr result \<longrightarrow>
      sorted_wrt (\<lambda>a b. fst (snd a) \<ge> fst (snd b)) result
      \<and> (\<forall>s. subseq (map (\<lambda>(doc, rrf_score, scores). page_content doc)
                        (filter (\<lambda>(doc, rrf_score, scores). rrf_score = s) result))
                      (first_seen (contents_of (concat all_results)))))
   \<and> (\<forall>result. reciprocal_rank_fusion all_results k (int n) = Inr result \<longrightarrow>
        length result \<le> n)
   \<and> (sorted_wrt (\<lambda>a b. snd a \<ge> snd b) (dedup_and_select docs top_k)
      \<and> (\<forall>s. subseq (contents_of (filter (\<lambda>(doc, score). score = s) (dedup_and_select docs top_k)))
                      (first_seen (contents_of docs)))
      \<and> length (dedup_and_select docs (int n)) \<le> n)
   \<and> (sorted_wrt (\<lambda>a b. snd a \<ge> snd b) (filter_docs_by_entities docs entities top_k)
      \<and> (\<forall>s. subseq (filter (\<lambda>(doc, score). score = s) (filter_docs_by_entities docs entities top_k))
                      (map (combined_score entities) docs))
      \<and> length (filter_docs_by_entities docs entities (int n)) \<le> n)"
proof -
  note p = ranked_lists_properties [of all_results k top_k docs entities]
  note q = ranked_lists_properties [of all_results k "int n" docs entities]
  from p have fusion: "\<forall>result. reciprocal_rank_fusion all_results k top_k = Inr result \<longrightarrow>
      sorted_wrt (\<lambda>a b. fst (snd a) \<ge> fst (snd b)) result
      \<and> (\<forall>s. subseq (map (\<lambda>(doc, rrf_score, scores). page_content doc)
                        (filter (\<lambda>(doc, rrf_score, scores). rrf_score = s) result))
                      (first_seen (contents_of (concat all_results))))"
    by (elim conjE) blast
  from q have "\<forall>result. reciprocal_rank_fusion all_results k (int n) = Inr result \<longrightarrow>
      (0 \<le> int n \<longrightarrow> int (length result) \<le> int n)"
    by (elim conjE) blast
  then have fusion_length: "\<forall>result. reciprocal_rank_fusion all_results k (int n) = Inr result \<longrightarrow>
      length result \<le> n"
    by simp
  from p have dedup: "sorted_wrt (\<lambda>a b. snd a \<ge> snd b) (dedup_and_select docs top_k)"
    by (elim conjE)
  from p have dedup_stable: "\<forall>s. subseq (contents_of (filter (\<lambda>(doc, score). score = s)
      (dedup_and_select docs top_k))) (first_seen (contents_of docs))"
    by (elim conjE)
  from q have "0 \<le> int n \<longrightarrow> int (length (dedup_and_select docs (int n))) \<le> int n"
    by (elim conjE)
  then have dedup_length: "length (dedup_and_select docs (int n)) \<le> n"
    by simp
  from p have entity: "sorted_wrt (\<lambda>a b. snd a \<ge> snd b) (filter_docs_by_entities docs entities top_k)"
    by (elim conjE)
  from p have entity_stable: "\<forall>s. subseq (filter (\<lambda>(doc, score). score = s)
      (filter_docs_by_entities docs entities top_k)) (map (combined_score entities) docs)"
    by (elim conjE)
  from q have "0 \<le> int n \<longrightarrow> int (length (filter_docs_by_entities docs entities (int n))) \<le> int n"
    by (elim conjE)
  then have entity_length: "length (filter_docs_by_entities docs entities (int n)) \<le> n"
    by simp
  from fusion fusion_length dedup dedup_stable dedup_length entity entity_stable entity_length
  show ?thesis by (intro conjI)
qed

theorem ranked_lists_sorted_stable_bounded_witness:
  "sorted_wrt (\<lambda>a b. snd a \<ge> snd b) [(doc_python, 3 / 5 :: rat), (doc_A, 1 / 2)]
   \<and> length (filter_docs_by_entities [(doc_A, 1 / 2), (doc_python, 1 / 2)]
          {''python'', ''GUIDO'', ''xyz''} (int 5)) \<le> 5
   \<and> length (dedup_and_select [(doc_A, 1 / 2), (doc_python, 1 / 2)] (int 5)) \<le> 5
   \<and> length [(doc_B, 1 / 62 + 1 / 61 :: rat, [4 / 5, 7 / 10 :: rat]), (doc_A, 1 / 61, [9 / 10]),
          (doc_C, 1 / 62, [3 / 5])] \<le> 5"
proof -
  note t = ranked_lists_sorted_stable_bounded
    [of "[[(doc_A, 9 / 10), (doc_B, 4 / 5)], [(doc_B, 7 / 10), (doc_C, 3 / 5)]]"
        default_rrf_k default_top_k 5 "[(doc_A, 1 / 2), (doc_python, 1 / 2)]"
        "{''python'', ''GUIDO'', ''xyz''}"]
  have five: "default_top_k = 5" by (simp add: default_top_k_def)
  from t have "sorted_wrt (\<lambda>a b. snd a \<ge> snd b)
      (filter_docs_by_entities [(doc_A, 1 / 2), (doc_python, 1 / 2)]
         {''python'', ''GUIDO'', ''xyz''} default_top_k)"
    by (elim conjE)
  then have a: "sorted_wrt (\<lambda>a b. snd a \<ge> snd b) [(doc_python, 3 / 5 :: rat), (doc_A, 1 / 2)]"
    by (simp only: five filter_example)
  from t have b: "length (filter_docs_by_entities [(doc_A, 1 / 2), (doc_python, 1 / 2)]
          {''python'', ''GUIDO'', ''xyz''} (int 5)) \<le> 5"
    by (elim conjE)
  from t have c: "length (dedup_and_select [(doc_A, 1 / 2), (doc_python, 1 / 2)] (int 5)) \<le> 5"
    by (elim conjE)
  from t have "\<forall>result. reciprocal_rank_fusion
        [[(doc_A, 9 / 10), (doc_B, 4 / 5)], [(doc_B, 7 / 10), (doc_C, 3 / 5)]]
        default_rrf_k (int 5) = Inr result \<longrightarrow> length result \<le> 5"
    by (elim conjE)
  moreover have "reciprocal_rank_fusion
        [[(doc_A, 9 / 10), (doc_B, 4 / 5)], [(doc_B, 7 / 10), (doc_C, 3 / 5)]]
        default_rrf_k (int 5)
      = Inr [(doc_B, 1 / 62 + 1 / 61, [4 / 5, 7 / 10]), (doc_A, 1 / 61, [9 / 10]),
             (doc_C, 1 / 62, [3 / 5])]"
    using fusion_example by (simp add: five)
  ultimately have d: "length [(doc_B, 1 / 62 + 1 / 61 :: rat, [4 / 5, 7 / 10 :: rat]),
      (doc_A, 1 / 61, [9 / 10]), (doc_C, 1 / 62, [3 / 5])] \<le> 5"
    by blast
  from a b c d show ?thesis by (intro conjI)
qed

section \<open>Properties of entity graph expansion\<close>

lemma scan_edges_eq: "scan_edges es cur nxt = nxt \<union> hop es `` cur"
proof (induction es arbitrary: nxt)
  case Nil
  show ?case by (simp add: hop_def)
next
  case (Cons e es)
  obtain e1 e2 where e: "e = (e1, e2)" by (cases e)
  have "hop (e # es) `` cur = hop [e] `` cur \<union> hop es `` cur"
    by (auto simp: hop_def)
  moreover have "hop [e] `` cur =
      (if e1 \<in> cur then {e2} else {}) \<union> (if e2 \<in> cur then {e1} else {})"
    by (auto simp: hop_def e)
  ultimately show ?case
    by (auto simp: e Cons.IH Let_def)
qed

lemma hop_relpow_step: "(hop es ^^ j) `` (hop es `` C) = (hop es ^^ Suc j) `` C"
proof -
  have "hop es ^^ Suc j = hop es O hop es ^^ j"
    by (simp add: relpow_commute)
  then show ?thesis by (simp only: Image_def relcomp_unfold) blast
qed

lemma expand_rounds_eq:
  "expand_rounds n es E C = E \<union> (\<Union>j\<in>{1..n}. (hop es ^^ j) `` C)"
proof (induction n arbitrary: E C)
  case 0
  show ?case by simp
next
  case (Suc n)
  have shift: "(\<Union>j\<in>{1..Suc n}. F j) = F 1 \<union> (\<Union>j\<in>{1..n}. F (Suc j))"
    for F :: "nat \<Rightarrow> string set"
  proof -
    have "{1..Suc n} = insert 1 (Suc ` {1..n})"
      by (auto simp: image_iff)
    then have "(\<Union>j\<in>{1..Suc n}. F j) = F 1 \<union> (\<Union>j\<in>Suc ` {1..n}. F j)"
      by (simp only: UN_insert)
    then show ?thesis by (simp only: image_image)
  qed
  have "expand_rounds (Suc n) es E C =
      (E \<union> hop es `` C) \<union> (\<Union>j\<in>{1..n}. (hop es ^^ j) `` (hop es `` C))"
    by (simp add: Suc.IH scan_edges_eq Let_def)
  also have "\<dots> = (E \<union> hop es `` C) \<union> (\<Union>j\<in>{1..n}. (hop es ^^ Suc j) `` C)"
    by (simp only: hop_relpow_step)
  also have "\<dots> = E \<union> ((hop es ^^ 1) `` C \<union> (\<Union>j\<in>{1..n}. (hop es ^^ Suc j) `` C))"
    by (simp add: Un_assoc)
  also have "\<dots> = E \<union> (\<Union>j\<in>{1..Suc n}. (hop es ^^ j) `` C)"
    by (simp only: shift [of "\<lambda>j. (hop es ^^ j) `` C"])
  finally show ?case .
qed

lemma expand_rounds_reachable:
  "expand_rounds n es S S = reachable_within es S n"
proof -
  have "S \<union> (\<Union>j\<in>{1..n}. (hop es ^^ j) `` S) = (\<Union>j\<in>{0..n}. (hop es ^^ j) `` S)"
  proof -
    have "{0..n} = insert 0 {1..n}" by auto
    then show ?thesis by simp
  qed
  also have "\<dots> = reachable_within es S n"
    by (auto simp: reachable_within_def)
  finally show ?thesis by (simp add: expand_rounds_eq)
qed

lemma expand_example_one_hop:
  "expand_entities [''Python''] example_graph 1 = {''Python'', ''Guido''}"
  by (simp add: expand_entities_def example_graph_def)

lemma expand_example_two_hops:
  "expand_entities [''Python''] example_graph 2 = {''Python'', ''Guido'', ''1991''}"
  by (auto simp add: expand_entities_def example_graph_def numeral_2_eq_2)

text \<open>
  Claim C6. Expansion with hop count \<open>H\<close> returns the seed set together with every
  entity reachable from a seed within \<open>H\<close> hops; with \<open>H = 0\<close> it returns exactly the
  seed set; on the graph with the edges (Python, Guido) and (Guido, 1991) and the seed
  Python, one hop gives Python and Guido, two hops give Python, Guido and 1991.
\<close>

theorem expand_entities_hops:
  "expand_entities seeds g H = set seeds \<union> reachable_within (edges g) (set seeds) (nat H)
   \<and> expand_entities seeds g 0 = set seeds
   \<and> expand_entities [''Python''] example_graph 1 = {''Python'', ''Guido''}
   \<and> expand_entities [''Python''] example_graph 2 = {''Python'', ''Guido'', ''1991''}"
proof -
  have "set seeds \<subseteq> reachable_within (edges g) (set seeds) (nat H)"
    by (auto simp: reachable_within_def intro: exI [of _ 0])
  then have "expand_entities seeds g H =
      set seeds \<union> reachable_within (edges g) (set seeds) (nat H)"
    by (auto simp: expand_entities_def expand_rounds_reachable)
  moreover have "expand_entities seeds g 0 = set seeds"
    by (simp add: expand_entities_def)
  ultimately show ?thesis
    using expand_example_one_hop expand_example_two_hops by simp
qed

theorem expand_entities_hops_witness:
  "set [''Python'']
     \<union> reachable_within [(''Python'', ''Guido''), (''Guido'', ''1991'')] (set [''Python'']) (nat 2)
   = {''Python'', ''Guido'', ''1991''}"
proof -
  note t = expand_entities_hops [of "[''Python'']" example_graph 2]
  from t have a: "expand_entities [''Python''] example_graph 2 =
      set [''Python''] \<union> reachable_within (edges example_graph) (set [''Python'']) (nat 2)"
    by (rule conjunct1)
  from t have b: "expand_entities [''Python''] example_graph 2 = {''Python'', ''Guido'', ''1991''}"
    by (elim conjE)
  have "edges example_graph = [(''Python'', ''Guido''), (''Guido'', ''1991'')]"
    by (simp add: example_graph_def)
  with a [symmetric] b show ?thesis by (simp only:)
qed

text \<open>
  Claim C10. For every graph, seed list and hop count, the expansion contains the
  seed set, and the expansion with \<open>H\<close> hops is contained in the expansion with
  \<open>H + 1\<close> hops. It holds for every Python int \<open>H\<close>, the negative ones included.
\<close>

theorem expand_entities_monotone:
  "set seeds \<subseteq> expand_entities seeds g H
   \<and> expand_entities seeds g H \<subseteq> expand_entities seeds g (H + 1)"
proof -
  have "{1..nat H} \<subseteq> {1..nat (H + 1)}" by auto
  then have "(\<Union>j\<in>{1..nat H}. (hop (edges g) ^^ j) `` set seeds)
      \<subseteq> (\<Union>j\<in>{1..nat (H + 1)}. (hop (edges g) ^^ j) `` set seeds)"
    by (rule UN_mono) simp
  then show ?thesis
    by (auto simp: expand_entities_def expand_rounds_eq)
qed

theorem expand_entities_monotone_witness:
  "set [''Python''] \<subseteq> expand_entities [''Python''] example_graph 1
   \<and> {''Python'', ''Guido''} \<subseteq> expand_entities [''Python''] example_graph (1 + 1)"
  using expand_entities_monotone [of "[''Python'']" example_graph 1] expand_example_one_hop
  by simp

section \<open>Properties of the reranking orchestrator\<close>

text \<open>
  Claim C5. When the reranking credential is absent or empty, \<open>reranking_rag\<close> raises
  the configuration error and the trace of service calls is empty: no call is made to
  the embedding, to the stage-1 search or to the stage-2 rerank.
\<close>

theorem reranking_fail_fast:
  "cohere_api_key = None \<or> cohere_api_key = Some [] \<Longrightarrow>
   reranking_rag svc q top_k cohere_api_key initial_top_k final_top_n
     = (Inl (ValueError ''cohere_api_key is required for reranking''), [])"
  by (simp add: reranking_rag_def)

theorem reranking_fail_fast_witness:
  "reranking_rag example_services ''q'' 5 (Some []) None None
     = (Inl (ValueError ''cohere_api_key is required for reranking''), [])
   \<and> snd (reranking_rag example_services ''q'' 5 (Some ''key'') None None)
     = [EmbedQuery ''q'', Stage1Search ''q'' 20, Stage2Rerank ''q'' [''A'', ''B''] 5,
        Generate (AnswerPrompt (''B'' @ [CHR 0x0A, CHR 0x0A] @ ''A'') ''q'')]"
  using reranking_fail_fast [of "Some []" example_services "''q''" 5 None None]
  by (simp add: reranking_rag_def example_services_def Let_def py_index_def doc_A_def doc_B_def)

section \<open>Properties of the adaptive router\<close>

lemma find_category_none:
  "\<forall>cat\<in>set cats. \<not> is_substring cat c \<Longrightarrow> find_category cats c = ''simple''"
  by (induction cats) auto

text \<open>
  Claim C9, as amended. Given a client (\<open>get_llm\<close> returned one), when the
  classification call on it raises, or when the clean-up of its response by the code
  (strip, lower-case, first whitespace-separated word, alphabetic characters only)
  raises or gives a word that is not a valid category and contains none as a substring,
  the node sets the category to \<open>simple\<close>, and the technique selected for it is
  \<open>baseline\<close>, the entry of \<open>simple\<close> in the table. The response \<open>banana\<close> is
  such a response.
\<close>

theorem router_fallback:
  assumes client: "get_llm = Inr llm_invoke"
    and invalid: "(\<exists>e. llm_invoke (ClassificationPrompt (query state)) = Inl e) \<or>
      (\<exists>raw e. llm_invoke (ClassificationPrompt (query state)) = Inr raw \<and>
         normalize_classification raw = Inl e) \<or>
      (\<exists>raw c. llm_invoke (ClassificationPrompt (query state)) = Inr raw \<and>
         normalize_classification raw = Inr c \<and>
         c \<notin> set VALID_CATEGORIES \<and>
         (\<forall>cat\<in>set VALID_CATEGORIES. \<not> is_substring cat c))"
  shows "\<exists>state'. classify_query_node get_llm state = Inr state'
      \<and> query_type state' = ''simple''
      \<and> technique (select_technique_node state') = ''baseline''
      \<and> map_of CATEGORY_TO_TECHNIQUE ''simple'' = Some (technique (select_technique_node state'))"
  using invalid
  by (auto simp: client classify_query_node_def validate_classification_def
      find_category_none select_technique_node_def CATEGORY_TO_TECHNIQUE_def)

lemma normalize_banana: "normalize_classification ''banana'' = Inr ''banana''"
  by (simp add: normalize_classification_def str_lower_def str_strip_def char_lower_def upper_letters_def lower_letters_def
      is_space_def is_alpha_def split_ws_def)

theorem router_fallback_witness:
  "(\<exists>state'. classify_query_node (Inr (\<lambda>p. Inr ''banana'')) example_state = Inr state'
      \<and> query_type state' = ''simple''
      \<and> technique (select_technique_node state') = ''baseline''
      \<and> map_of CATEGORY_TO_TECHNIQUE ''simple'' = Some (technique (select_technique_node state')))
   \<and> (\<exists>state'. classify_query_node (Inr (\<lambda>p. Inl RuntimeError)) example_state = Inr state'
      \<and> query_type state' = ''simple''
      \<and> technique (select_technique_node state') = ''baseline''
      \<and> map_of CATEGORY_TO_TECHNIQUE ''simple'' = Some (technique (select_technique_node state')))"
proof
  have "''banana'' \<notin> set VALID_CATEGORIES
      \<and> (\<forall>cat\<in>set VALID_CATEGORIES. \<not> is_substring cat ''banana'')"
    by (simp add: VALID_CATEGORIES_def)
  then show "\<exists>state'. classify_query_node (Inr (\<lambda>p. Inr ''banana'')) example_state = Inr state'
      \<and> query_type state' = ''simple''
      \<and> technique (select_technique_node state') = ''baseline''
      \<and> map_of CATEGORY_TO_TECHNIQUE ''simple'' = Some (technique (select_technique_node state'))"
    using normalize_banana
    by (intro router_fallback [of _ "\<lambda>p. Inr ''banana''"]) auto
  show "\<exists>state'. classify_query_node (Inr (\<lambda>p. Inl RuntimeError)) example_state = Inr state'
      \<and> query_type state' = ''simple''
      \<and> technique (select_technique_node state') = ''baseline''
      \<and> map_of CATEGORY_TO_TECHNIQUE ''simple'' = Some (technique (select_technique_node state'))"
    by (intro router_fallback [of _ "\<lambda>p. Inl RuntimeError"]) auto
qed

text \<open>
  Claim C9 as stated fails. The response \<open>com1plex\<close>, trimmed, lower-cased and
  stripped of punctuation, is still \<open>com1plex\<close>: it is not a valid category and
  contains none. The clean-up of the code drops the digit as well, so the category is
  \<open>complex\<close> and the technique \<open>subquery\<close>, not the default. And when no client can
  be obtained, the node raises instead of falling back.
\<close>

theorem router_normalization_counterexample:
  "stated_normalization ''com1plex'' = ''com1plex''
   \<and> ''com1plex'' \<notin> set VALID_CATEGORIES
   \<and> \<not> is_substring ''simple'' ''com1plex''
   \<and> \<not> is_substring ''complex'' ''com1plex''
   \<and> \<not> is_substring ''abstract'' ''com1plex''
   \<and> \<not> is_substring ''precision'' ''com1plex''
   \<and> classify_query_node (Inr digit_response) example_state
       = Inr (example_state\<lparr>query_type := ''complex'', confidence := 9 / 10\<rparr>)
   \<and> technique (select_technique_node (example_state\<lparr>query_type := ''complex'', confidence := 9 / 10\<rparr>))
       = ''subquery''
   \<and> classify_query_node no_client example_state = Inl RuntimeError"
  by (simp add: stated_normalization_def is_punctuation_def str_lower_def str_strip_def
      char_lower_def upper_letters_def lower_letters_def is_space_def is_alpha_def
      VALID_CATEGORIES_def classify_query_node_def digit_response_def no_client_def
      normalize_classification_def split_ws_def validate_classification_def
      select_technique_node_def CATEGORY_TO_TECHNIQUE_def example_state_def)

section \<open>Properties of query expansion\<close>

lemma str_strip_Nil [simp]: "str_strip [] = []"
  by (simp add: str_strip_def)

text \<open>
  Claim C4, as amended. For every query and every text that the generation call
  returns, the query variations are a non-empty list that starts with the query, and
  are exactly \<open>[query]\<close> when the response is blank; the hypothesis is the query when
  the stripped response has fewer than 20 characters. When the generation call raises,
  both functions raise the same exception: there is no fallback for a failed call.
\<close>

theorem expansion_fallback:
  "(\<forall>response. ainvoke_smart (ParaphrasePrompt (n - 1) q) = Inr response \<longrightarrow>
      (\<exists>variations. generate_query_variations ainvoke_smart q n = Inr (q # variations))
      \<and> (str_strip response = [] \<longrightarrow> generate_query_variations ainvoke_smart q n = Inr [q]))
   \<and> (\<forall>e. ainvoke_smart (ParaphrasePrompt (n - 1) q) = Inl e \<longrightarrow>
      generate_query_variations ainvoke_smart q n = Inl e)
   \<and> (\<forall>response. ainvoke_smart (HypothesisPrompt q) = Inr response \<longrightarrow>
      generate_hypothesis ainvoke_smart q =
        Inr (if length (str_strip response) < 20 then q else str_strip response))
   \<and> (\<forall>e. ainvoke_smart (HypothesisPrompt q) = Inl e \<longrightarrow>
      generate_hypothesis ainvoke_smart q = Inl e)"
  by (simp add: generate_query_variations_def generate_hypothesis_def Let_def slice_to_def)

theorem expansion_fallback_witness:
  "generate_query_variations (\<lambda>p. Inr ''   '') ''q'' 3 = Inr [''q'']
   \<and> generate_hypothesis (\<lambda>p. Inr ''  too short  '') ''q'' = Inr ''q''"
  using expansion_fallback [of "\<lambda>p. Inr ''   ''" 3 "''q''"]
    expansion_fallback [of "\<lambda>p. Inr ''  too short  ''" 3 "''q''"]
  by (simp add: str_strip_def is_space_def)

text \<open>
  Claim C4 as stated fails: with a generation call that raises, neither function
  returns a list.
\<close>

theorem expansion_raises_counterexample:
  "generate_query_variations failing_generation ''q'' 3 = Inl RuntimeError
   \<and> generate_hypothesis failing_generation ''q'' = Inl RuntimeError"
  by (simp add: generate_query_variations_def generate_hypothesis_def failing_generation_def)

section \<open>Properties of entity graph building\<close>

lemma build_loop_returns:
  "\<forall>j<length ds. calls (i + j) (EntityPrompt (page_content (fst (ds ! j)))) = Inr (resp (i + j)) \<Longrightarrow>
   build_loop calls i ds g =
     Inr \<lparr>nodes = nodes g \<union> (\<Union>j<length ds. set (parse_entities (resp (i + j)))),
          edges = edges g @ concat (map (\<lambda>j. entity_pairs (parse_entities (resp (i + j)))) [0..<length ds])\<rparr>"
proof (induction ds arbitrary: i g)
  case Nil
  show ?case by simp
next
  case (Cons d ds)
  obtain doc score where d: "d = (doc, score)" by (cases d)
  from Cons.prems have first: "calls i (EntityPrompt (page_content doc)) = Inr (resp i)"
    by (auto simp: d dest: spec [of _ 0])
  from Cons.prems have rest:
    "\<forall>j<length ds. calls (Suc i + j) (EntityPrompt (page_content (fst (ds ! j)))) = Inr (resp (Suc i + j))"
    by (auto dest: spec [of _ "Suc j" for j])
  have nodes_eq: "(\<Union>j<Suc (length ds). set (parse_entities (resp (i + j))))
      = set (parse_entities (resp i)) \<union> (\<Union>j<length ds. set (parse_entities (resp (Suc i + j))))"
    by (auto simp: less_Suc_eq_0_disj)
  have edges_eq: "concat (map (\<lambda>j. entity_pairs (parse_entities (resp (i + j)))) [0..<Suc (length ds)])
      = entity_pairs (parse_entities (resp i))
        @ concat (map (\<lambda>j. entity_pairs (parse_entities (resp (Suc i + j)))) [0..<length ds])"
    by (simp only: upt_conv_Cons [of 0 "Suc (length ds)"] map_Suc_upt [symmetric]) (simp add: comp_def)
  show ?case
    by (simp add: d extract_entities_def first Cons.IH [OF rest] nodes_eq edges_eq Un_assoc del: upt_Suc)
qed

lemma build_loop_aborts:
  "n < length ds \<Longrightarrow>
   calls (i + n) (EntityPrompt (page_content (fst (ds ! n)))) = Inl e \<Longrightarrow>
   \<forall>j<n. \<exists>r. calls (i + j) (EntityPrompt (page_content (fst (ds ! j)))) = Inr r \<Longrightarrow>
   build_loop calls i ds g = Inl e"
proof (induction ds arbitrary: i n g)
  case Nil
  then show ?case by simp
next
  case (Cons d ds)
  obtain doc score where d: "d = (doc, score)" by (cases d)
  show ?case
  proof (cases n)
    case 0
    with Cons.prems show ?thesis by (simp add: d extract_entities_def)
  next
    case (Suc m)
    from Cons.prems(3) Suc obtain r where first: "calls i (EntityPrompt (page_content doc)) = Inr r"
      by (auto simp: d dest: spec [of _ 0])
    have "build_loop calls (Suc i) ds g' = Inl e" for g'
    proof (rule Cons.IH [of m])
      show "m < length ds" using Cons.prems(1) Suc by simp
      show "calls (Suc i + m) (EntityPrompt (page_content (fst (ds ! m)))) = Inl e"
        using Cons.prems(2) Suc by simp
      show "\<forall>j<m. \<exists>r. calls (Suc i + j) (EntityPrompt (page_content (fst (ds ! j)))) = Inr r"
        using Cons.prems(3) Suc by (auto dest: spec [of _ "Suc j" for j])
    qed
    then show ?thesis by (simp add: d extract_entities_def first)
  qed
qed


text \<open>
  Claim C7, as amended. The builder looks at the first five documents. When every
  extraction call returns a text, it returns the graph of the entities parsed from the
  texts, and a text with no line of more than two characters contributes no entity.
  When a call raises and the calls before it returned, the build raises that
  exception: a failed extraction aborts the build.
\<close>

theorem build_entity_graph_outcome:
  "((\<forall>j<length (slice_to 5 docs).
        calls j (EntityPrompt (page_content (fst (slice_to 5 docs ! j)))) = Inr (resp j)) \<longrightarrow>
      build_entity_graph calls docs =
        Inr \<lparr>nodes = (\<Union>j<length (slice_to 5 docs). set (parse_entities (resp j))),
             edges = concat (map (\<lambda>j. entity_pairs (parse_entities (resp j)))
                       [0..<length (slice_to 5 docs)])\<rparr>)
   \<and> (n < length (slice_to 5 docs)
        \<and> calls n (EntityPrompt (page_content (fst (slice_to 5 docs ! n)))) = Inl e
        \<and> (\<forall>j<n. \<exists>r. calls j (EntityPrompt (page_content (fst (slice_to 5 docs ! j)))) = Inr r) \<longrightarrow>
      build_entity_graph calls docs = Inl e)
   \<and> ((\<forall>line\<in>set (split_on CHR 0x0A (str_strip response)). length (str_strip line) \<le> 2) \<longrightarrow>
      parse_entities response = [])"
proof (intro conjI impI)
  assume "\<forall>j<length (slice_to 5 docs).
      calls j (EntityPrompt (page_content (fst (slice_to 5 docs ! j)))) = Inr (resp j)"
  then show "build_entity_graph calls docs =
      Inr \<lparr>nodes = (\<Union>j<length (slice_to 5 docs). set (parse_entities (resp j))),
           edges = concat (map (\<lambda>j. entity_pairs (parse_entities (resp j)))
                     [0..<length (slice_to 5 docs)])\<rparr>"
    using build_loop_returns [of "slice_to 5 docs" calls 0 resp "\<lparr>nodes = {}, edges = []\<rparr>"]
    by (simp add: build_entity_graph_def)
next
  assume "n < length (slice_to 5 docs)
      \<and> calls n (EntityPrompt (page_content (fst (slice_to 5 docs ! n)))) = Inl e
      \<and> (\<forall>j<n. \<exists>r. calls j (EntityPrompt (page_content (fst (slice_to 5 docs ! j)))) = Inr r)"
  then show "build_entity_graph calls docs = Inl e"
    using build_loop_aborts [of n "slice_to 5 docs" calls 0 e "\<lparr>nodes = {}, edges = []\<rparr>"]
    by (simp add: build_entity_graph_def)
next
  assume "\<forall>line\<in>set (split_on CHR 0x0A (str_strip response)). length (str_strip line) \<le> 2"
  then have "filter (\<lambda>line. str_strip line \<noteq> [] \<and> length (str_strip line) > 2)
      (split_on CHR 0x0A (str_strip response)) = []"
    by (auto simp: filter_empty_conv)
  then show "parse_entities response = []"
    by (simp add: parse_entities_def slice_to_def)
qed

theorem build_entity_graph_outcome_witness:
  "build_entity_graph (\<lambda>i p. Inr ''ok'') [(doc_A, 1), (doc_B, 1)] = Inr \<lparr>nodes = {}, edges = []\<rparr>
   \<and> build_entity_graph (\<lambda>i p. if i = 1 then Inl RuntimeError else Inr ''ok'') [(doc_A, 1), (doc_B, 1)]
       = Inl RuntimeError
   \<and> parse_entities ''ok'' = []"
proof -
  have len: "slice_to 5 [(doc_A, 1::rat), (doc_B, 1)] = [(doc_A, 1), (doc_B, 1)]"
    by (simp add: slice_to_def)
  have short: "\<forall>line\<in>set (split_on CHR 0x0A (str_strip ''ok'')). length (str_strip line) \<le> 2"
    by (simp add: str_strip_def is_space_def)
  note t1 = build_entity_graph_outcome
    [of "[(doc_A, 1), (doc_B, 1)]" "\<lambda>i p. Inr ''ok''" "\<lambda>j. ''ok''" 0 RuntimeError "''ok''"]
  note t2 = build_entity_graph_outcome
    [of "[(doc_A, 1), (doc_B, 1)]" "\<lambda>i p. if i = 1 then Inl RuntimeError else Inr ''ok''"
        "\<lambda>j. ''ok''" 1 RuntimeError "''ok''"]
  from t1 short have p: "parse_entities ''ok'' = []" by blast
  from t1 have "build_entity_graph (\<lambda>i p. Inr ''ok'') [(doc_A, 1), (doc_B, 1)]
      = Inr \<lparr>nodes = {}, edges = []\<rparr>"
    by (simp add: len p)
  moreover from t2 have "build_entity_graph
      (\<lambda>i p. if i = 1 then Inl RuntimeError else Inr ''ok'') [(doc_A, 1), (doc_B, 1)]
      = Inl RuntimeError"
    by (simp add: len)
  ultimately show ?thesis using p by simp
qed

text \<open>
  Claim C7 as stated fails: the extraction for the second of two documents raises, and
  the builder raises instead of returning the graph of the first document.
\<close>

theorem build_entity_graph_abort_counterexample:
  "build_entity_graph second_call_fails [(doc_A, 1), (doc_B, 1)] = Inl RuntimeError
   \<and> build_entity_graph all_calls_return [(doc_A, 1)]
     = Inr \<lparr>nodes = {''Python'', ''Guido van Rossum''},
            edges = [(''Python'', ''Guido van Rossum'')]\<rparr>"
  by (auto simp add: build_entity_graph_def slice_to_def extract_entities_def parse_entities_def
      str_strip_def is_space_def Let_def second_call_fails_def all_calls_return_def
      entity_response_def)

end
